theory Spec2Isabelle
  imports Complex_Main "HOL-Library.Multiset"
begin

section \<open>JavaScript values\<close>

text \<open>
  A JavaScript string is a sequence of UTF-16 code units; \<open>length\<close>, \<open>charAt\<close> and
  \<open>substring\<close> count code units. \<open>str\<close> reads an ASCII literal.
\<close>

type_synonym jsstring = "nat list"

definition str :: "string \<Rightarrow> jsstring" where
  "str s = map of_char s"

text \<open>
  A JavaScript number is \<open>NaN\<close>, an infinity or a finite value. Finite values are kept as
  exact rationals and arithmetic on them is exact: rounding to 53 bits, the overflow of an
  arithmetic result and the sign of zero are not modelled. The one place where the
  binary64 range is modelled is the conversion of a decimal numeral (\<open>num_of\<close>, used by
  \<open>parseFloat\<close>): a value at or beyond the overflow threshold becomes an infinity.
\<close>

datatype number = NaN | NegInf | Fin rat | PosInf

definition overflow_bound :: rat where
  "overflow_bound = 2 ^ 1024 - 2 ^ 970"

definition num_of :: "rat \<Rightarrow> number" where
  "num_of q = (if overflow_bound \<le> q then PosInf
               else if q \<le> - overflow_bound then NegInf else Fin q)"

fun num_neg :: "number \<Rightarrow> number" where
  "num_neg NaN = NaN"
| "num_neg NegInf = PosInf"
| "num_neg PosInf = NegInf"
| "num_neg (Fin a) = Fin (- a)"

fun num_add :: "number \<Rightarrow> number \<Rightarrow> number" where
  "num_add NaN _ = NaN"
| "num_add _ NaN = NaN"
| "num_add PosInf NegInf = NaN"
| "num_add NegInf PosInf = NaN"
| "num_add PosInf _ = PosInf"
| "num_add _ PosInf = PosInf"
| "num_add NegInf _ = NegInf"
| "num_add _ NegInf = NegInf"
| "num_add (Fin a) (Fin b) = Fin (a + b)"

definition num_sub :: "number \<Rightarrow> number \<Rightarrow> number" where
  "num_sub a b = num_add a (num_neg b)"

fun num_abs :: "number \<Rightarrow> number" where
  "num_abs NaN = NaN"
| "num_abs NegInf = PosInf"
| "num_abs PosInf = PosInf"
| "num_abs (Fin a) = Fin \<bar>a\<bar>"

fun num_sgn :: "number \<Rightarrow> int" where
  "num_sgn NaN = 0"
| "num_sgn NegInf = - 1"
| "num_sgn PosInf = 1"
| "num_sgn (Fin a) = (if a < 0 then - 1 else if a = 0 then 0 else 1)"

definition inf_of_sgn :: "int \<Rightarrow> number" where
  "inf_of_sgn s = (if s < 0 then NegInf else if s = 0 then NaN else PosInf)"

fun num_mul :: "number \<Rightarrow> number \<Rightarrow> number" where
  "num_mul NaN _ = NaN"
| "num_mul _ NaN = NaN"
| "num_mul (Fin a) (Fin b) = Fin (a * b)"
| "num_mul a b = inf_of_sgn (num_sgn a * num_sgn b)"

fun num_div :: "number \<Rightarrow> number \<Rightarrow> number" where
  "num_div NaN _ = NaN"
| "num_div _ NaN = NaN"
| "num_div (Fin a) (Fin b) =
     (if b = 0 then inf_of_sgn (num_sgn (Fin a)) else Fin (a / b))"
| "num_div (Fin a) _ = Fin 0"
| "num_div a (Fin b) = inf_of_sgn (num_sgn a * (if b < 0 then - 1 else 1))"
| "num_div _ _ = NaN"

text \<open>Comparisons: every comparison with \<open>NaN\<close> is false.\<close>

fun num_lt :: "number \<Rightarrow> number \<Rightarrow> bool" where
  "num_lt NaN _ = False"
| "num_lt _ NaN = False"
| "num_lt PosInf _ = False"
| "num_lt _ NegInf = False"
| "num_lt NegInf _ = True"
| "num_lt _ PosInf = True"
| "num_lt (Fin a) (Fin b) = (a < b)"

fun num_le :: "number \<Rightarrow> number \<Rightarrow> bool" where
  "num_le NaN _ = False"
| "num_le _ NaN = False"
| "num_le NegInf _ = True"
| "num_le _ PosInf = True"
| "num_le PosInf _ = False"
| "num_le _ NegInf = False"
| "num_le (Fin a) (Fin b) = (a \<le> b)"

definition num_gt :: "number \<Rightarrow> number \<Rightarrow> bool" where
  "num_gt a b = num_lt b a"

definition num_ge :: "number \<Rightarrow> number \<Rightarrow> bool" where
  "num_ge a b = num_le b a"

text \<open>\<open>ToBoolean\<close> on a number: \<open>NaN\<close> and zero are falsy.\<close>

definition truthy :: "number \<Rightarrow> bool" where
  "truthy n = (n \<noteq> NaN \<and> n \<noteq> Fin 0)"

section \<open>String built-ins\<close>

text \<open>
  \<open>toLowerCase\<close> is exact on ASCII text; the Unicode mapping of other letters is not
  modelled and such code units are left as they are.
\<close>

definition lower_unit :: "nat \<Rightarrow> nat" where
  "lower_unit c = (if 65 \<le> c \<and> c \<le> 90 then c + 32 else c)"

definition toLowerCase :: "jsstring \<Rightarrow> jsstring" where
  "toLowerCase s = map lower_unit s"

text \<open>The code units of WhiteSpace and LineTerminator, which \<open>trim\<close> and \<open>\s\<close> use.\<close>

definition is_space :: "nat \<Rightarrow> bool" where
  "is_space c = (c \<in> {9, 10, 11, 12, 13, 32, 160, 5760, 8232, 8233, 8239, 8287, 12288, 65279}
                 \<or> (8192 \<le> c \<and> c \<le> 8202))"

definition trim :: "jsstring \<Rightarrow> jsstring" where
  "trim s = rev (dropWhile is_space (rev (dropWhile is_space s)))"

definition charAt :: "jsstring \<Rightarrow> nat \<Rightarrow> jsstring" where
  "charAt s k = (if k < length s then [s ! k] else [])"

fun is_prefix :: "jsstring \<Rightarrow> jsstring \<Rightarrow> bool" where
  "is_prefix [] _ = True"
| "is_prefix (p # ps) [] = False"
| "is_prefix (p # ps) (c # cs) = (p = c \<and> is_prefix ps cs)"

fun str_includes :: "jsstring \<Rightarrow> jsstring \<Rightarrow> bool" where
  "str_includes [] p = (p = [])"
| "str_includes (c # cs) p = (is_prefix p (c # cs) \<or> str_includes cs p)"

definition substring :: "jsstring \<Rightarrow> nat \<Rightarrow> nat \<Rightarrow> jsstring" where
  "substring s a b = take (max a b - min a b) (drop (min a b) s)"

text \<open>
  An assignment \<open>a[i] = v\<close> to an array: inside the array it overwrites, at \<open>i = length\<close>
  it appends. The code below never writes further out.
\<close>

definition array_set :: "'a list \<Rightarrow> nat \<Rightarrow> 'a \<Rightarrow> 'a list" where
  "array_set xs i v = (if i < length xs then xs[i := v] else xs @ [v])"

section \<open>Records\<close>

text \<open>
  A timestamp as \<open>toTimestamp\<close> receives it: a \<open>Date\<close> (its time value, \<open>NaN\<close> when
  invalid), a string, a number or \<open>undefined\<close>.
\<close>

datatype timestamp_value = TsDate number | TsString jsstring | TsNumber number | TsUndefined

datatype direction = debit | credit

text \<open>
  What \<open>parseEmail\<close> returns (\<open>Partial<BankAlert>\<close>: every field but the id), and the alert
  itself, which adds the id.
\<close>

record PartialBankAlert =
  timestamp :: timestamp_value
  amount :: number
  currency :: jsstring
  accountNumber :: jsstring
  description :: jsstring
  transactionType :: direction
  rawEmail :: jsstring
  bank :: jsstring

record BankAlert = PartialBankAlert +
  id :: jsstring

datatype txn_status = pending | completed | failed

record Transaction =
  id :: jsstring
  timestamp :: timestamp_value
  amount :: number
  currency :: jsstring
  accountNumber :: jsstring
  description :: jsstring
  status :: txn_status
  source :: jsstring

record MatchDetails =
  amountMatch :: bool
  amountDifference :: number
  timeWindow :: number
  descriptionSimilarity :: number

record MatchResult =
  alertId :: jsstring
  transactionId :: "jsstring option"
  confidence :: number
  matchDetails :: MatchDetails
  matched :: bool

text \<open>
  What the code reads from outside: the clock (\<open>Date.now()\<close> and \<open>new Date()\<close>, in
  milliseconds; one reading serves a whole call) and the engine's date parser
  (\<open>new Date(s).getTime()\<close>, \<open>NaN\<close> for a string it rejects).
\<close>

record env =
  now :: int
  parse_date :: "jsstring \<Rightarrow> number"

section \<open>Transaction matcher\<close>

subsection \<open>Edit distance and similarity\<close>

text \<open>The body of the inner loop of \<open>levenshteinDistance\<close>, on the pair \<open>(costs, lastValue)\<close>.\<close>

definition lev_inner :: "jsstring \<Rightarrow> jsstring \<Rightarrow> nat \<Rightarrow> nat list \<times> nat \<Rightarrow> nat \<Rightarrow> nat list \<times> nat" where
  "lev_inner s1 s2 i st j =
     (case st of (costs, lastValue) \<Rightarrow>
        if i = 0 then (array_set costs j j, lastValue)
        else if 0 < j then
          (let newValue = costs ! (j - 1);
               newValue' = (if charAt s1 (i - 1) \<noteq> charAt s2 (j - 1)
                            then min (min newValue lastValue) (costs ! j) + 1
                            else newValue)
           in (array_set costs (j - 1) lastValue, newValue'))
        else (costs, lastValue))"

text \<open>The body of the outer loop: one row of the table, kept in the single array.\<close>

definition lev_outer :: "jsstring \<Rightarrow> jsstring \<Rightarrow> nat list \<Rightarrow> nat \<Rightarrow> nat list" where
  "lev_outer s1 s2 costs i =
     (case foldl (lev_inner s1 s2 i) (costs, i) [0 ..< Suc (length s2)] of
        (costs', lastValue) \<Rightarrow>
          if 0 < i then array_set costs' (length s2) lastValue else costs')"

definition levenshteinDistance :: "jsstring \<Rightarrow> jsstring \<Rightarrow> nat" where
  "levenshteinDistance s1 s2 =
     foldl (lev_outer s1 s2) [] [0 ..< Suc (length s1)] ! length s2"

definition calculateSimilarity :: "jsstring \<Rightarrow> jsstring \<Rightarrow> number" where
  "calculateSimilarity str1 str2 =
     (let s1 = trim (toLowerCase str1);
          s2 = trim (toLowerCase str2)
      in if s1 = s2 then Fin 1
         else if length s1 = 0 \<or> length s2 = 0 then Fin 0
         else
           (let longer = (if length s1 > length s2 then s1 else s2);
                shorter = (if length s1 > length s2 then s2 else s1);
                editDistance = levenshteinDistance shorter longer
            in num_div (num_sub (Fin (of_nat (length longer))) (Fin (of_nat editDistance)))
                       (Fin (of_nat (length longer)))))"

text \<open>
  The edit distance as the specification words it: the standard dynamic-programming
  recurrence over insertion, deletion and substitution with unit costs. \<open>lev_dp a b i j\<close>
  is the distance between the first \<open>i\<close> units of \<open>a\<close> and the first \<open>j\<close> units of \<open>b\<close>.
\<close>

fun lev_dp :: "jsstring \<Rightarrow> jsstring \<Rightarrow> nat \<Rightarrow> nat \<Rightarrow> nat" where
  "lev_dp a b 0 j = j"
| "lev_dp a b (Suc i) 0 = Suc i"
| "lev_dp a b (Suc i) (Suc j) =
     min (min (lev_dp a b i (Suc j) + 1) (lev_dp a b (Suc i) j + 1))
         (lev_dp a b i j + (if a ! i = b ! j then 0 else 1))"

subsection \<open>Scoring\<close>

definition toTimestamp :: "env \<Rightarrow> timestamp_value \<Rightarrow> number" where
  "toTimestamp e v =
     (case v of
        TsUndefined \<Rightarrow> Fin (of_int (now e))
      | TsDate t \<Rightarrow> t
      | TsString s \<Rightarrow>
          if s = [] then Fin (of_int (now e))
          else if truthy (parse_date e s) then parse_date e s else Fin (of_int (now e))
      | TsNumber n \<Rightarrow> if truthy n then n else Fin (of_int (now e)))"

definition TIME_WINDOW_MS :: number where
  "TIME_WINDOW_MS = Fin (15 * 60 * 1000)"

definition AMOUNT_TOLERANCE :: number where
  "AMOUNT_TOLERANCE = Fin (2 / 100)"

definition MIN_CONFIDENCE_THRESHOLD :: number where
  "MIN_CONFIDENCE_THRESHOLD = Fin (6 / 10)"

text \<open>The local constants of \<open>scoreMatch\<close>, each under its own name.\<close>

definition timeDiff :: "env \<Rightarrow> BankAlert \<Rightarrow> Transaction \<Rightarrow> number" where
  "timeDiff e alert txn =
     num_abs (num_sub (toTimestamp e (PartialBankAlert.timestamp alert))
                      (toTimestamp e (Transaction.timestamp txn)))"

definition isWithinTimeWindow :: "env \<Rightarrow> BankAlert \<Rightarrow> Transaction \<Rightarrow> bool" where
  "isWithinTimeWindow e alert txn = num_le (timeDiff e alert txn) TIME_WINDOW_MS"

definition amountDiff :: "BankAlert \<Rightarrow> Transaction \<Rightarrow> number" where
  "amountDiff alert txn = num_abs (num_sub (PartialBankAlert.amount alert) (Transaction.amount txn))"

definition amountDiffPercent :: "BankAlert \<Rightarrow> Transaction \<Rightarrow> number" where
  "amountDiffPercent alert txn =
     (if num_gt (PartialBankAlert.amount alert) (Fin 0)
      then num_div (amountDiff alert txn) (PartialBankAlert.amount alert) else Fin 0)"

definition amountMatches :: "BankAlert \<Rightarrow> Transaction \<Rightarrow> bool" where
  "amountMatches alert txn = num_le (amountDiffPercent alert txn) AMOUNT_TOLERANCE"

definition accountMatches :: "BankAlert \<Rightarrow> Transaction \<Rightarrow> bool" where
  "accountMatches alert txn = (PartialBankAlert.accountNumber alert = Transaction.accountNumber txn)"

text \<open>The variable \<open>confidence\<close> of \<open>scoreMatch\<close>: from 0, the four additions in their order.\<close>

definition score :: "env \<Rightarrow> BankAlert \<Rightarrow> Transaction \<Rightarrow> number" where
  "score e alert txn =
     (let c0 = Fin 0;
          c1 = (if amountMatches alert txn then num_add c0 (Fin (4 / 10)) else c0);
          c2 = (if accountMatches alert txn then num_add c1 (Fin (3 / 10)) else c1);
          c3 = (if isWithinTimeWindow e alert txn then num_add c2 (Fin (2 / 10)) else c2)
      in num_add c3
           (num_mul (calculateSimilarity (PartialBankAlert.description alert) (Transaction.description txn))
                    (Fin (1 / 10))))"

definition scoreMatch :: "env \<Rightarrow> BankAlert \<Rightarrow> Transaction \<Rightarrow> MatchResult" where
  "scoreMatch e alert txn =
     (let confidence = score e alert txn;
          matched = num_ge confidence MIN_CONFIDENCE_THRESHOLD
      in \<lparr> alertId = BankAlert.id alert,
           transactionId = (if matched then Some (Transaction.id txn) else None),
           confidence = confidence,
           matchDetails = \<lparr> amountMatch = amountMatches alert txn,
                            amountDifference = amountDiff alert txn,
                            timeWindow = timeDiff e alert txn,
                            descriptionSimilarity =
                              calculateSimilarity (PartialBankAlert.description alert)
                                                  (Transaction.description txn) \<rparr>,
           matched = matched \<rparr>)"

text \<open>The confidence of a result as a rational (every score is finite, see below).\<close>

definition conf_value :: "MatchResult \<Rightarrow> rat" where
  "conf_value r = (case confidence r of Fin q \<Rightarrow> q | _ \<Rightarrow> 0)"

text \<open>
  \<open>Array.prototype.sort\<close> with a comparator. The sort is stable (ECMAScript 2019): an
  element moves behind a later one only when the comparator is positive on the pair, and
  a \<open>NaN\<close> from the comparator counts as zero. Under such a rule every stable algorithm
  gives the same array for a consistent comparator; insertion is the one written here.
\<close>

fun insort_by :: "('a \<Rightarrow> 'a \<Rightarrow> number) \<Rightarrow> 'a \<Rightarrow> 'a list \<Rightarrow> 'a list" where
  "insort_by cmp x [] = [x]"
| "insort_by cmp x (y # ys) =
     (if num_gt (cmp x y) (Fin 0) then y # insort_by cmp x ys else x # y # ys)"

definition array_sort :: "('a \<Rightarrow> 'a \<Rightarrow> number) \<Rightarrow> 'a list \<Rightarrow> 'a list" where
  "array_sort cmp xs = foldr (insort_by cmp) xs []"

definition findMatches :: "env \<Rightarrow> BankAlert \<Rightarrow> Transaction list \<Rightarrow> MatchResult list" where
  "findMatches e alert transactions =
     array_sort (\<lambda>a b. num_sub (confidence b) (confidence a))
       (map (\<lambda>txn. scoreMatch e alert txn) transactions)"

section \<open>Bank alert parser\<close>

subsection \<open>Regular expressions\<close>

text \<open>
  The patterns of \<open>BANK_PATTERNS\<close> as data. \<open>Sym p\<close> matches one code unit satisfying \<open>p\<close>;
  \<open>Alt\<close> prefers its left branch; \<open>Star\<close> is greedy; \<open>Group\<close> is the capturing group
  (every pattern of the table has exactly one).
\<close>

datatype regex =
    Eps
  | Sym "nat \<Rightarrow> bool"
  | Seq regex regex
  | Alt regex regex
  | Star regex
  | Group regex

text \<open>
  A matcher state is the rest of the input and the text captured so far. \<open>run r st\<close> lists
  the states in which \<open>r\<close> can finish from \<open>st\<close>, in the order in which a backtracking
  matcher tries them: the head is the match the engine reports. An iteration of a star
  that consumes nothing is dropped, as the engine does.
\<close>

type_synonym mstate = "jsstring \<times> jsstring option"

fun run :: "regex \<Rightarrow> mstate \<Rightarrow> mstate list" where
  "run Eps st = [st]"
| "run (Sym p) st = (case fst st of [] \<Rightarrow> [] | c # cs \<Rightarrow> if p c then [(cs, snd st)] else [])"
| "run (Seq a b) st = concat (map (run b) (run a st))"
| "run (Alt a b) st = run a st @ run b st"
| "run (Star a) st =
     concat (map (\<lambda>st'. if length (fst st') < length (fst st) then run (Star a) st' else [])
                 (run a st)) @ [st]"
| "run (Group a) st =
     map (\<lambda>st'. (fst st', Some (take (length (fst st) - length (fst st')) (fst st)))) (run a st)"

text \<open>
  The equation of \<open>Star\<close> unfolds without end on a state that is not given in full, so it
  is used by name only.
\<close>

declare run.simps(5) [simp del]

text \<open>
  The array a successful \<open>match\<close> returns, as far as the code reads it: index 0 (the
  matched text) and index 1 (the capture, \<open>undefined\<close> when no group took part).
\<close>

record match_array =
  matched_text :: jsstring
  group1 :: "jsstring option"

text \<open>The leftmost match: the first start position from which the pattern can finish.\<close>

fun search :: "regex \<Rightarrow> jsstring \<Rightarrow> match_array option" where
  "search r [] =
     (case run r ([], None) of
        st # _ \<Rightarrow> Some \<lparr> matched_text = [], group1 = snd st \<rparr>
      | [] \<Rightarrow> None)"
| "search r (c # cs) =
     (case run r (c # cs, None) of
        st # _ \<Rightarrow> Some \<lparr> matched_text = take (length (c # cs) - length (fst st)) (c # cs),
                         group1 = snd st \<rparr>
      | [] \<Rightarrow> search r cs)"

text \<open>
  \<open>String.prototype.match\<close> with a pattern that may be \<open>undefined\<close>: the engine then builds
  the empty pattern, which matches the empty text at the start and has no group.
\<close>

definition str_match :: "jsstring \<Rightarrow> regex option \<Rightarrow> match_array option" where
  "str_match s pat =
     (case pat of
        None \<Rightarrow> Some \<lparr> matched_text = [], group1 = None \<rparr>
      | Some r \<Rightarrow> search r s)"

text \<open>Pattern syntax: literals, classes and quantifiers in terms of the constructors.\<close>

definition chr :: "nat \<Rightarrow> regex" where
  "chr x = Sym (\<lambda>c. c = x)"

text \<open>
  Under the flag \<open>i\<close> (without \<open>u\<close>) a pattern character of the ASCII range matches
  itself and its other case, and nothing else.
\<close>

definition chr_i :: "nat \<Rightarrow> regex" where
  "chr_i x = Sym (\<lambda>c. lower_unit c = lower_unit x)"

definition seqs :: "regex list \<Rightarrow> regex" where
  "seqs rs = foldr Seq rs Eps"

definition lit_i :: "string \<Rightarrow> regex" where
  "lit_i s = seqs (map chr_i (str s))"

definition alts :: "regex list \<Rightarrow> regex" where
  "alts rs = foldr Alt (butlast rs) (last rs)"

definition Opt :: "regex \<Rightarrow> regex" where
  "Opt r = Alt r Eps"

definition Plus :: "regex \<Rightarrow> regex" where
  "Plus r = Seq r (Star r)"

fun rep_exact :: "nat \<Rightarrow> regex \<Rightarrow> regex" where
  "rep_exact 0 r = Eps"
| "rep_exact (Suc n) r = Seq r (rep_exact n r)"

fun rep_upto :: "nat \<Rightarrow> regex \<Rightarrow> regex" where
  "rep_upto 0 r = Eps"
| "rep_upto (Suc n) r = Alt (Seq r (rep_upto n r)) Eps"

text \<open>\<open>r{m,n}\<close>, greedy.\<close>

definition Rep :: "nat \<Rightarrow> nat \<Rightarrow> regex \<Rightarrow> regex" where
  "Rep m n r = Seq (rep_exact m r) (rep_upto (n - m) r)"

definition is_digit :: "nat \<Rightarrow> bool" where
  "is_digit c = (48 \<le> c \<and> c \<le> 57)"

definition is_word :: "nat \<Rightarrow> bool" where
  "is_word c = (is_digit c \<or> (65 \<le> c \<and> c \<le> 90) \<or> (97 \<le> c \<and> c \<le> 122) \<or> c = 95)"

definition digit :: regex where
  "digit = Sym is_digit"

definition space :: regex where
  "space = Sym is_space"

definition word :: regex where
  "word = Sym is_word"

definition comma :: nat where
  "comma = 44"

definition naira :: nat where
  "naira = 8358"

subsection \<open>The table of bank patterns\<close>

record patterns =
  amountPattern :: regex
  typePattern :: regex
  timePattern :: regex
  accountPattern :: regex

text \<open>The capture shared by the three amount patterns: \<open>([\d,]+\.?\d*)\<close>.\<close>

definition amount_token :: regex where
  "amount_token = Group (seqs [Plus (Sym (\<lambda>c. is_digit c \<or> c = comma)), Opt (chr 46), Star digit])"

text \<open>The capture shared by the three account patterns: \<open>(\*{2,4}\d{4,10})\<close>.\<close>

definition masked_account :: regex where
  "masked_account = Group (seqs [Rep 2 4 (chr 42), Rep 4 10 digit])"

definition gtbank :: patterns where
  "gtbank =
     \<lparr> amountPattern = seqs [lit_i ''Amount:'', Star space, Opt (chr naira), amount_token],
       typePattern = Group (alts [lit_i ''debit'', lit_i ''credit'', lit_i ''withdrawal'',
                                  lit_i ''transfer'', lit_i ''payment'']),
       timePattern = Group (seqs [Rep 1 2 digit, chr 47, Rep 1 2 digit, chr 47, Rep 4 4 digit,
                                  Plus space, Rep 1 2 digit, chr 58, Rep 2 2 digit, chr 58,
                                  Rep 2 2 digit]),
       accountPattern = seqs [lit_i ''Account:'', Star space, masked_account] \<rparr>"

definition access :: patterns where
  "access =
     \<lparr> amountPattern = seqs [lit_i ''NGN'', Star space, amount_token],
       typePattern = Group (alts [lit_i ''DEBIT'', lit_i ''CREDIT'', lit_i ''Withdrawal'',
                                  lit_i ''Transfer'', lit_i ''Payment'']),
       timePattern = Group (seqs [Rep 2 2 digit, chr 45, Rep 3 3 word, chr 45, Rep 4 4 digit,
                                  Plus space, Rep 2 2 digit, chr 58, Rep 2 2 digit, chr 58,
                                  Rep 2 2 digit]),
       accountPattern = seqs [lit_i ''A/C:'', Star space, masked_account] \<rparr>"

definition firstbank :: patterns where
  "firstbank =
     \<lparr> amountPattern = seqs [lit_i ''Amount'', Star space, Sym (\<lambda>c. c = 58 \<or> c = 61),
                              Star space, Opt (chr naira), amount_token],
       typePattern = Group (alts [lit_i ''Debit'', lit_i ''Credit'']),
       timePattern = Group (seqs [Rep 2 2 digit, chr 47, Rep 2 2 digit, chr 47, Rep 4 4 digit,
                                  Plus space, Rep 2 2 digit, chr 58, Rep 2 2 digit]),
       accountPattern = seqs [lit_i ''Account'', Star space, Sym (\<lambda>c. c = 58 \<or> c = 61),
                               Star space, masked_account] \<rparr>"

text \<open>
  The own properties of the object \<open>BANK_PATTERNS\<close> as the module defines them. The parser
  takes the table as an argument, since \<open>addBankPattern\<close> can change it at run time; the
  properties below are about this initial table.
\<close>

definition BANK_PATTERNS :: "(jsstring \<times> patterns) list" where
  "BANK_PATTERNS = [(str ''gtbank'', gtbank), (str ''access'', access), (str ''firstbank'', firstbank)]"

text \<open>
  \<open>BANK_PATTERNS\<close> is an object literal, so a lookup by name that finds no own property
  goes on to \<open>Object.prototype\<close>. These are the names it answers to; each value is a
  function or an object, hence truthy, and none has a property named like a pattern.
\<close>

definition object_prototype_keys :: "jsstring list" where
  "object_prototype_keys =
     map str [''constructor'', ''__defineGetter__'', ''__defineSetter__'', ''hasOwnProperty'',
              ''__lookupGetter__'', ''__lookupSetter__'', ''isPrototypeOf'',
              ''propertyIsEnumerable'', ''toString'', ''valueOf'', ''__proto__'',
              ''toLocaleString'']"

datatype patterns_object = Own patterns | Inherited

text \<open>\<open>BANK_PATTERNS[bank] || BANK_PATTERNS.gtbank\<close>\<close>

definition lookup_patterns :: "(jsstring \<times> patterns) list \<Rightarrow> jsstring \<Rightarrow> patterns_object" where
  "lookup_patterns table bank' =
     (case map_of table bank' of
        Some p \<Rightarrow> Own p
      | None \<Rightarrow> if bank' \<in> set object_prototype_keys then Inherited else Own gtbank)"

text \<open>Reading a pattern off the object: \<open>undefined\<close> when the object is not a profile.\<close>

definition pattern_of :: "(patterns \<Rightarrow> regex) \<Rightarrow> patterns_object \<Rightarrow> regex option" where
  "pattern_of field obj = (case obj of Own p \<Rightarrow> Some (field p) | Inherited \<Rightarrow> None)"

subsection \<open>parseFloat\<close>

definition digits_value :: "jsstring \<Rightarrow> nat" where
  "digits_value ds = foldl (\<lambda>acc c. 10 * acc + (c - 48)) 0 ds"

text \<open>The exponent part \<open>e\<close>, sign, digits; 0 when the text does not start with a full one.\<close>

definition exponent_of :: "jsstring \<Rightarrow> int" where
  "exponent_of s =
     (case s of
        [] \<Rightarrow> 0
      | c # cs \<Rightarrow>
          if c = 101 \<or> c = 69 then
            (case cs of
               [] \<Rightarrow> 0
             | d # ds \<Rightarrow>
                 if d = 45 then
                   (if takeWhile is_digit ds = [] then 0
                    else - int (digits_value (takeWhile is_digit ds)))
                 else if d = 43 then int (digits_value (takeWhile is_digit ds))
                 else int (digits_value (takeWhile is_digit cs)))
          else 0)"

definition pow10 :: "int \<Rightarrow> rat" where
  "pow10 k = (if 0 \<le> k then 10 ^ nat k else 1 / 10 ^ nat (- k))"

text \<open>
  \<open>parseFloat\<close>: leading white space is skipped, then the longest prefix that is a decimal
  literal is read (sign, \<open>Infinity\<close>, or digits with an optional fraction and exponent);
  the result is \<open>NaN\<close> when there is none.
\<close>

definition parseFloat :: "jsstring \<Rightarrow> number" where
  "parseFloat s =
     (let t = dropWhile is_space s;
          negative = (t \<noteq> [] \<and> hd t = 45);
          u = (if t \<noteq> [] \<and> (hd t = 45 \<or> hd t = 43) then tl t else t)
      in if is_prefix (str ''Infinity'') u then (if negative then NegInf else PosInf)
         else
           (let ip = takeWhile is_digit u;
                r1 = dropWhile is_digit u;
                has_point = (r1 \<noteq> [] \<and> hd r1 = 46);
                fp = (if has_point then takeWhile is_digit (tl r1) else []);
                r2 = (if has_point then dropWhile is_digit (tl r1) else r1)
            in if ip = [] \<and> fp = [] then NaN
               else
                 (let v = (of_nat (digits_value ip) + of_nat (digits_value fp) / 10 ^ length fp)
                          * pow10 (exponent_of r2)
                  in num_of (if negative then - v else v))))"

subsection \<open>parseEmail\<close>

datatype js_error = TypeError

text \<open>\<open>amountMatch ? parseFloat(amountMatch[1].replace(/,/g, '')) : 0\<close>\<close>

definition amount_of :: "match_array option \<Rightarrow> js_error + number" where
  "amount_of res =
     (case res of
        None \<Rightarrow> Inr (Fin 0)
      | Some m \<Rightarrow>
          (case group1 m of
             None \<Rightarrow> Inl TypeError
           | Some tok \<Rightarrow> Inr (parseFloat (filter (\<lambda>c. c \<noteq> comma) tok))))"

definition transactionType_of :: "match_array option \<Rightarrow> direction" where
  "transactionType_of res =
     (case res of
        None \<Rightarrow> credit
      | Some m \<Rightarrow>
          (case group1 m of
             None \<Rightarrow> credit
           | Some kw \<Rightarrow>
               if str_includes (toLowerCase kw) (str ''debit'')
                  \<or> str_includes (toLowerCase kw) (str ''withdrawal'')
               then debit else credit))"

text \<open>\<open>timeMatch ? new Date(timeMatch[1]) : new Date()\<close>\<close>

definition timestamp_of :: "env \<Rightarrow> match_array option \<Rightarrow> timestamp_value" where
  "timestamp_of e res =
     (case res of
        None \<Rightarrow> TsDate (Fin (of_int (now e)))
      | Some m \<Rightarrow>
          (case group1 m of
             None \<Rightarrow> TsDate NaN
           | Some s \<Rightarrow> TsDate (parse_date e s)))"

text \<open>\<open>accountMatch?.[1] || ''\<close>\<close>

definition accountNumber_of :: "match_array option \<Rightarrow> jsstring" where
  "accountNumber_of res =
     (case res of
        None \<Rightarrow> []
      | Some m \<Rightarrow> (case group1 m of None \<Rightarrow> [] | Some a \<Rightarrow> a))"

definition parseEmail ::
  "(jsstring \<times> patterns) list \<Rightarrow> env \<Rightarrow> jsstring \<Rightarrow> jsstring \<Rightarrow> js_error + PartialBankAlert" where
  "parseEmail table e email bank' =
     (let patterns = lookup_patterns table bank';
          amountMatch = str_match email (pattern_of amountPattern patterns)
      in case amount_of amountMatch of
           Inl err \<Rightarrow> Inl err
         | Inr amount' \<Rightarrow>
             (let typeMatch = str_match email (pattern_of typePattern patterns);
                  transactionType = transactionType_of typeMatch;
                  timeMatch = str_match email (pattern_of timePattern patterns);
                  timestamp = timestamp_of e timeMatch;
                  accountMatch = str_match email (pattern_of accountPattern patterns);
                  accountNumber = accountNumber_of accountMatch;
                  description = substring email 0 200
              in Inr \<lparr> PartialBankAlert.timestamp = timestamp,
                       PartialBankAlert.amount = amount',
                       PartialBankAlert.currency = str ''NGN'',
                       PartialBankAlert.accountNumber = accountNumber,
                       PartialBankAlert.description = description,
                       transactionType = transactionType,
                       rawEmail = email,
                       bank = bank' \<rparr>))"

text \<open>\<open>{ id, ...parsed }\<close>, as \<open>processAlerts\<close> builds an alert from a parse result.\<close>

definition with_id :: "jsstring \<Rightarrow> PartialBankAlert \<Rightarrow> BankAlert" where
  "with_id i p = PartialBankAlert.extend p (BankAlert.fields i)"

subsection \<open>What a pattern can match\<close>

text \<open>The language of a pattern: the texts it can consume, whatever the backtracking order.\<close>

inductive_set star :: "jsstring set \<Rightarrow> jsstring set" for A :: "jsstring set" where
  star_nil: "[] \<in> star A"
| star_step: "u \<in> A \<Longrightarrow> v \<in> star A \<Longrightarrow> u @ v \<in> star A"

fun lang :: "regex \<Rightarrow> jsstring set" where
  "lang Eps = {[]}"
| "lang (Sym p) = {[c] | c. p c}"
| "lang (Seq a b) = {u @ v | u v. u \<in> lang a \<and> v \<in> lang b}"
| "lang (Alt a b) = lang a \<union> lang b"
| "lang (Star a) = star (lang a)"
| "lang (Group a) = lang a"

text \<open>Every group of the pattern captures a text of \<open>L\<close>.\<close>

fun cap_in :: "jsstring set \<Rightarrow> regex \<Rightarrow> bool" where
  "cap_in L Eps = True"
| "cap_in L (Sym p) = True"
| "cap_in L (Seq a b) = (cap_in L a \<and> cap_in L b)"
| "cap_in L (Alt a b) = (cap_in L a \<and> cap_in L b)"
| "cap_in L (Star a) = cap_in L a"
| "cap_in L (Group a) = (lang a \<subseteq> L)"

text \<open>Every way through the pattern passes a group.\<close>

fun captures :: "regex \<Rightarrow> bool" where
  "captures (Group a) = True"
| "captures (Seq a b) = (captures a \<or> captures b)"
| "captures (Alt a b) = (captures a \<and> captures b)"
| "captures _ = False"

text \<open>The keywords of the type patterns, lowercased.\<close>

definition type_keywords :: "jsstring list" where
  "type_keywords = map str [''debit'', ''credit'', ''withdrawal'', ''transfer'', ''payment'']"

text \<open>\<open>st'\<close> is the first state in which the pattern finishes from \<open>st\<close>.\<close>

definition first_of :: "regex \<Rightarrow> mstate \<Rightarrow> mstate \<Rightarrow> bool" where
  "first_of r st st' = (case run r st of [] \<Rightarrow> False | x # _ \<Rightarrow> x = st')"

section \<open>Sample data\<close>

text \<open>An alert and candidates in the shape of the repository's usage example.\<close>

definition sample_env :: env where
  "sample_env = \<lparr> now = 1729002645000, parse_date = (\<lambda>s. NaN) \<rparr>"

definition sample_alert :: BankAlert where
  "sample_alert =
     \<lparr> PartialBankAlert.timestamp = TsDate (Fin 1729002645000),
       PartialBankAlert.amount = Fin 50000, PartialBankAlert.currency = str ''NGN'',
       PartialBankAlert.accountNumber = str ''****1234'',
       PartialBankAlert.description = str ''Transfer from John'', transactionType = credit,
       rawEmail = str ''Amount: 50,000 Account: ****1234'', bank = str ''gtbank'',
       BankAlert.id = str ''alert-1'' \<rparr>"

definition sample_txn :: Transaction where
  "sample_txn =
     \<lparr> id = str ''txn-001'', timestamp = TsDate (Fin 1729002645000), amount = Fin 50000,
       currency = str ''NGN'', accountNumber = str ''****1234'',
       description = str ''Transfer from John'', status = completed, source = str ''api'' \<rparr>"

definition other_txn :: Transaction where
  "other_txn =
     \<lparr> id = str ''txn-002'', timestamp = TsDate (Fin 1711111111000), amount = Fin 720,
       currency = str ''NGN'', accountNumber = str ''****9999'',
       description = str ''Transfer from John'', status = pending, source = str ''api'' \<rparr>"

definition third_txn :: Transaction where
  "third_txn =
     \<lparr> id = str ''txn-003'', timestamp = TsDate (Fin 1711111111000), amount = Fin 1000,
       currency = str ''NGN'', accountNumber = str ''****0000'',
       description = str ''Transfer from John'', status = pending, source = str ''api'' \<rparr>"

definition zero_alert :: BankAlert where
  "zero_alert = sample_alert \<lparr> PartialBankAlert.amount := Fin 0 \<rparr>"

definition alert_1000 :: BankAlert where
  "alert_1000 = sample_alert \<lparr> PartialBankAlert.amount := Fin 1000 \<rparr>"

definition txn_1020 :: Transaction where
  "txn_1020 = sample_txn \<lparr> Transaction.amount := Fin 1020 \<rparr>"

definition txn_1021 :: Transaction where
  "txn_1021 = sample_txn \<lparr> Transaction.amount := Fin 1021 \<rparr>"

definition plain_email :: jsstring where
  "plain_email = str ''Amount: 50,000.00 credit Account: ****1234''"

definition empty_token_email :: jsstring where
  "empty_token_email = str ''Amount: ,''"

definition huge_amount_email :: jsstring where
  "huge_amount_email = str ''Amount: '' @ replicate 310 57"

definition no_fields_email :: jsstring where
  "no_fields_email = str ''Your debit card was used''"

definition access_email :: jsstring where
  "access_email = str ''Credit alert reversed: Withdrawal of NGN 1,250.50 A/C: **12345''"

text \<open>
  An alert as \<open>processAlerts\<close> builds it from an email that names no account, and a
  candidate whose account is empty.
\<close>

definition parsed_alert :: BankAlert where
  "parsed_alert =
     with_id (str ''alert-2'') (projr (parseEmail BANK_PATTERNS sample_env no_fields_email (str ''gtbank'')))"

definition blank_txn :: Transaction where
  "blank_txn = sample_txn \<lparr> Transaction.accountNumber := [] \<rparr>"

section \<open>Properties of the matcher\<close>

subsection \<open>The rolling array computes the edit distance\<close>

lemma lev_dp_zero_right [simp]: "lev_dp a b i 0 = i"
  by (cases i) simp_all

lemma lev_dp_up_row: "lev_dp a b (Suc i) j \<le> lev_dp a b i j + 1"
  by (cases j) simp_all

lemma lev_dp_up_col: "lev_dp a b i (Suc j) \<le> lev_dp a b i j + 1"
  by (cases i) simp_all

lemma lev_dp_down_row: "lev_dp a b i j \<le> lev_dp a b (Suc i) j + 1"
proof (induction j)
  case 0
  then show ?case by simp
next
  case (Suc j)
  have "lev_dp a b i (Suc j) \<le> lev_dp a b i j + 1"
    by (rule lev_dp_up_col)
  with Suc show ?case by simp
qed

lemma lev_dp_down_col: "lev_dp a b i j \<le> lev_dp a b i (Suc j) + 1"
proof (induction i)
  case 0
  then show ?case by simp
next
  case (Suc i)
  have "lev_dp a b (Suc i) j \<le> lev_dp a b i j + 1"
    by (rule lev_dp_up_row)
  with Suc show ?case by simp
qed

lemma lev_dp_step:
  "lev_dp a b (Suc i) (Suc j) =
     (if a ! i \<noteq> b ! j
      then min (min (lev_dp a b i j) (lev_dp a b (Suc i) j)) (lev_dp a b i (Suc j)) + 1
      else lev_dp a b i j)"
  using lev_dp_down_row [of a b i j] lev_dp_down_col [of a b i j]
  by (simp add: min_def)

lemma lev_dp_le_max: "lev_dp a b i j \<le> max i j"
proof (induction a b i j rule: lev_dp.induct)
  case (3 a b i j)
  have "lev_dp a b (Suc i) (Suc j) \<le> lev_dp a b i j + 1"
    by (simp add: min_def)
  with 3 show ?case by simp
qed simp_all

lemma inner_first_row:
  "foldl (lev_inner s1 s2 0) ([], l) [0 ..< k] = ([0 ..< k], l)"
  by (induction k) (simp_all add: lev_inner_def array_set_def)

lemma inner_row:
  assumes i: "i < length s1" and len: "length row = Suc (length s2)"
    and row: "\<forall>t \<le> length s2. row ! t = lev_dp s1 s2 i t"
  shows "k \<le> Suc (length s2) \<Longrightarrow>
    (case foldl (lev_inner s1 s2 (Suc i)) (row, Suc i) [0 ..< k] of
       (costs, lastValue) \<Rightarrow>
         length costs = Suc (length s2) \<and> lastValue = lev_dp s1 s2 (Suc i) (k - 1) \<and>
         (\<forall>t. t < k - 1 \<longrightarrow> costs ! t = lev_dp s1 s2 (Suc i) t) \<and>
         (\<forall>t. k - 1 \<le> t \<and> t \<le> length s2 \<longrightarrow> costs ! t = lev_dp s1 s2 i t))"
proof (induction k)
  case 0
  then show ?case using len row by simp
next
  case (Suc k)
  obtain costs lastValue where st: "foldl (lev_inner s1 s2 (Suc i)) (row, Suc i) [0 ..< k] = (costs, lastValue)"
    by (cases "foldl (lev_inner s1 s2 (Suc i)) (row, Suc i) [0 ..< k]")
  from Suc st have inv: "length costs = Suc (length s2)" "lastValue = lev_dp s1 s2 (Suc i) (k - 1)"
    "\<forall>t. t < k - 1 \<longrightarrow> costs ! t = lev_dp s1 s2 (Suc i) t"
    "\<forall>t. k - 1 \<le> t \<and> t \<le> length s2 \<longrightarrow> costs ! t = lev_dp s1 s2 i t"
    by simp_all
  show ?case
  proof (cases k)
    case 0
    then show ?thesis using inv st by (simp add: lev_inner_def)
  next
    case (Suc k')
    with Suc.prems have k': "k' < length s2" by simp
    have c1: "costs ! k' = lev_dp s1 s2 i k'" using inv(4) Suc k' by simp
    have c2: "costs ! Suc k' = lev_dp s1 s2 i (Suc k')" using inv(4) Suc k' by simp
    have l: "lastValue = lev_dp s1 s2 (Suc i) k'" using inv(2) Suc by simp
    have ch: "(charAt s1 i \<noteq> charAt s2 k') = (s1 ! i \<noteq> s2 ! k')"
      using i k' by (simp add: charAt_def)
    have step: "lev_inner s1 s2 (Suc i) (costs, lastValue) k
      = (costs[k' := lev_dp s1 s2 (Suc i) k'], lev_dp s1 s2 (Suc i) (Suc k'))"
      using Suc k' inv(1) c1 c2 l ch
      by (simp add: lev_inner_def array_set_def Let_def lev_dp_step del: lev_dp.simps)
    show ?thesis
      using st step Suc k' inv
      by (auto simp add: nth_list_update less_Suc_eq simp del: lev_dp.simps)
  qed
qed

lemma outer_row:
  "k \<le> length s1 \<Longrightarrow>
   foldl (lev_outer s1 s2) [] [0 ..< Suc k] = map (lev_dp s1 s2 k) [0 ..< Suc (length s2)]"
proof (induction k)
  case 0
  have m: "map (lev_dp s1 s2 0) [0 ..< Suc (length s2)] = [0 ..< Suc (length s2)]"
    by (simp add: map_idI del: upt_Suc)
  have a: "foldl (lev_outer s1 s2) [] [0 ..< Suc 0] = lev_outer s1 s2 [] 0"
    by simp
  have b: "lev_outer s1 s2 [] 0 = [0 ..< Suc (length s2)]"
    using inner_first_row [of s1 s2 0 "Suc (length s2)"]
    by (simp add: lev_outer_def del: upt_Suc)
  show ?case
    by (simp only: a b m)
next
  case (Suc k)
  let ?row = "map (lev_dp s1 s2 k) [0 ..< Suc (length s2)]"
  have prev: "foldl (lev_outer s1 s2) [] [0 ..< Suc k] = ?row"
    using Suc by simp
  obtain costs lastValue where st:
    "foldl (lev_inner s1 s2 (Suc k)) (?row, Suc k) [0 ..< Suc (length s2)] = (costs, lastValue)"
    by (cases "foldl (lev_inner s1 s2 (Suc k)) (?row, Suc k) [0 ..< Suc (length s2)]")
  have rw: "\<forall>t \<le> length s2. ?row ! t = lev_dp s1 s2 k t"
    by (auto simp add: nth_append less_Suc_eq_le simp del: lev_dp.simps)
  have inv: "length costs = Suc (length s2)" "lastValue = lev_dp s1 s2 (Suc k) (length s2)"
    "\<forall>t. t < length s2 \<longrightarrow> costs ! t = lev_dp s1 s2 (Suc k) t"
    using inner_row [of k s1 ?row s2 "Suc (length s2)"] Suc.prems rw st
    by (simp_all del: upt_Suc lev_dp.simps)
  have fin: "array_set costs (length s2) lastValue = map (lev_dp s1 s2 (Suc k)) [0 ..< Suc (length s2)]"
    using inv
    by (intro nth_equalityI) (auto simp add: array_set_def nth_list_update nth_append less_Suc_eq simp del: lev_dp.simps)
  have unroll: "foldl (lev_outer s1 s2) [] [0 ..< Suc (Suc k)]
      = lev_outer s1 s2 (foldl (lev_outer s1 s2) [] [0 ..< Suc k]) (Suc k)"
    by simp
  have "lev_outer s1 s2 ?row (Suc k) = array_set costs (length s2) lastValue"
    using st by (simp add: lev_outer_def del: upt_Suc lev_dp.simps)
  then show ?case
    by (simp only: unroll prev fin)
qed

lemma levenshteinDistance_dp:
  "levenshteinDistance s1 s2 = lev_dp s1 s2 (length s1) (length s2)"
  using outer_row [of "length s1" s1 s2]
  by (simp add: levenshteinDistance_def nth_append del: upt_Suc lev_dp.simps)


lemmas num_eval = num_sub_def num_gt_def num_ge_def truthy_def inf_of_sgn_def

lemmas score_eval = scoreMatch_def score_def amountMatches_def amountDiffPercent_def
  amountDiff_def accountMatches_def isWithinTimeWindow_def timeDiff_def toTimestamp_def
  TIME_WINDOW_MS_def AMOUNT_TOLERANCE_def MIN_CONFIDENCE_THRESHOLD_def

lemmas sample_eval = sample_env_def sample_alert_def sample_txn_def other_txn_def str_def

lemmas sample_eval2 = sample_eval third_txn_def zero_alert_def

subsection \<open>Similarity and confidence\<close>

lemma similarity_same [simp]: "calculateSimilarity s s = Fin 1"
  by (simp add: calculateSimilarity_def)

lemma sample_score: "score sample_env sample_alert sample_txn = Fin 1"
  by (simp add: score_eval sample_eval num_eval)

lemma other_score: "score sample_env sample_alert other_txn = Fin (1 / 10)"
  by (simp add: score_eval sample_eval num_eval)

lemma lev_dp_sym: "lev_dp a b i j = lev_dp b a j i"
  by (induction a b i j rule: lev_dp.induct) (simp_all add: min.commute min.left_commute eq_commute)

lemma similarity_formula:
  assumes "trim (toLowerCase s) \<noteq> trim (toLowerCase t)"
    and "trim (toLowerCase s) \<noteq> []" and "trim (toLowerCase t) \<noteq> []"
  shows "calculateSimilarity s t =
     Fin ((of_nat (max (length (trim (toLowerCase s))) (length (trim (toLowerCase t))))
           - of_nat (lev_dp (trim (toLowerCase s)) (trim (toLowerCase t))
                       (length (trim (toLowerCase s))) (length (trim (toLowerCase t)))))
          / of_nat (max (length (trim (toLowerCase s))) (length (trim (toLowerCase t)))))"
  using assms lev_dp_sym [of "trim (toLowerCase s)" "trim (toLowerCase t)"]
  by (simp add: calculateSimilarity_def Let_def levenshteinDistance_dp num_sub_def max_def
      del: lev_dp.simps)

lemma similarity_range: "\<exists>q. calculateSimilarity s t = Fin q \<and> 0 \<le> q \<and> q \<le> 1"
proof -
  let ?a = "trim (toLowerCase s)" and ?b = "trim (toLowerCase t)"
  show ?thesis
  proof (cases "?a = ?b \<or> ?a = [] \<or> ?b = []")
    case True
    then show ?thesis by (auto simp add: calculateSimilarity_def Let_def)
  next
    case False
    let ?L = "max (length ?a) (length ?b)"
    let ?d = "lev_dp ?a ?b (length ?a) (length ?b)"
    have d: "?d \<le> ?L" by (rule lev_dp_le_max)
    have L: "0 < ?L" using False by (cases ?a) simp_all
    have f: "calculateSimilarity s t = Fin ((of_nat ?L - of_nat ?d) / of_nat ?L)"
      using False similarity_formula [of s t] by simp
    have "(0::rat) \<le> (of_nat ?L - of_nat ?d) / of_nat ?L"
      using d L by (simp del: lev_dp.simps)
    moreover have "(of_nat ?L - of_nat ?d) / of_nat ?L \<le> (1::rat)"
      using d L by (simp add: divide_le_eq del: lev_dp.simps)
    ultimately show ?thesis using f by blast
  qed
qed


lemma score_decomp:
  assumes "calculateSimilarity (PartialBankAlert.description alert) (Transaction.description txn) = Fin qs"
  shows "score e alert txn =
     Fin ((if amountMatches alert txn then 4 / 10 else 0)
          + (if accountMatches alert txn then 3 / 10 else 0)
          + (if isWithinTimeWindow e alert txn then 2 / 10 else 0)
          + qs * (1 / 10))"
  using assms by (simp add: score_def Let_def)

lemma score_range: "\<exists>q. score e alert txn = Fin q \<and> 0 \<le> q \<and> q \<le> 1"
proof -
  obtain qs where qs: "calculateSimilarity (PartialBankAlert.description alert) (Transaction.description txn) = Fin qs"
    "0 \<le> qs" "qs \<le> 1"
    using similarity_range by blast
  let ?q = "(if amountMatches alert txn then 4 / 10 else 0)
          + (if accountMatches alert txn then 3 / 10 else 0)
          + (if isWithinTimeWindow e alert txn then 2 / 10 else 0)
          + qs * (1 / 10)"
  have "score e alert txn = Fin ?q" by (rule score_decomp [OF qs(1)])
  moreover have "0 \<le> ?q" using qs(2) by simp
  moreover have "?q \<le> 1" using qs(3) by simp
  ultimately show ?thesis by blast
qed

lemma score_fin: "\<exists>q. score e alert txn = Fin q"
  using score_range [of e alert txn] by blast

lemma confidence_scoreMatch [simp]: "confidence (scoreMatch e alert txn) = score e alert txn"
  by (simp add: scoreMatch_def Let_def)

lemma confidence_range:
  "\<exists>q. confidence (scoreMatch e alert txn) = Fin q \<and> 0 \<le> q \<and> q \<le> 1"
  using score_range [of e alert txn] by simp

lemma insort_by_confidence:
  assumes "\<exists>q. confidence x = Fin q" and "\<forall>y \<in> set ys. \<exists>q. confidence y = Fin q"
  shows "insort_by (\<lambda>a b. num_sub (confidence b) (confidence a)) x ys
         = insort_key (\<lambda>r. - conf_value r) x ys"
  using assms
proof (induction ys)
  case Nil
  then show ?case by simp
next
  case (Cons y ys)
  from Cons.prems obtain qx qy where q: "confidence x = Fin qx" "confidence y = Fin qy"
    by auto
  have "num_gt (num_sub (confidence y) (confidence x)) (Fin 0) = (\<not> - conf_value x \<le> - conf_value y)"
    using q by (auto simp add: num_gt_def num_sub_def conf_value_def)
  with Cons show ?case by simp
qed

lemma array_sort_confidence:
  assumes "\<forall>y \<in> set xs. \<exists>q. confidence y = Fin q"
  shows "array_sort (\<lambda>a b. num_sub (confidence b) (confidence a)) xs
         = sort_key (\<lambda>r. - conf_value r) xs"
  using assms
proof (induction xs)
  case Nil
  then show ?case by (simp add: array_sort_def)
next
  case (Cons x xs)
  then have ih: "array_sort (\<lambda>a b. num_sub (confidence b) (confidence a)) xs
                 = sort_key (\<lambda>r. - conf_value r) xs"
    by simp
  have "\<forall>y \<in> set (sort_key (\<lambda>r. - conf_value r) xs). \<exists>q. confidence y = Fin q"
    using Cons.prems by simp
  then have "insort_by (\<lambda>a b. num_sub (confidence b) (confidence a)) x (sort_key (\<lambda>r. - conf_value r) xs)
        = insort_key (\<lambda>r. - conf_value r) x (sort_key (\<lambda>r. - conf_value r) xs)"
    using Cons.prems by (intro insort_by_confidence) simp_all
  then show ?case
    using ih by (simp add: array_sort_def sort_key_def)
qed

lemma findMatches_sort_key:
  "findMatches e alert txns = sort_key (\<lambda>r. - conf_value r) (map (scoreMatch e alert) txns)"
proof -
  have "\<forall>y \<in> set (map (scoreMatch e alert) txns). \<exists>q. confidence y = Fin q"
    by (simp add: score_fin)
  then show ?thesis
    unfolding findMatches_def by (rule array_sort_confidence)
qed

lemma num_ge_conf:
  assumes "\<exists>q. confidence a = Fin q" "\<exists>q. confidence b = Fin q"
  shows "num_ge (confidence a) (confidence b) = (conf_value b \<le> conf_value a)"
  using assms by (auto simp add: num_ge_def conf_value_def)

lemma findMatches_set: "set (findMatches e alert txns) = scoreMatch e alert ` set txns"
  by (simp add: findMatches_sort_key)

lemma findMatches_sorted:
  "sorted_wrt (\<lambda>a b. num_ge (confidence a) (confidence b)) (findMatches e alert txns)"
proof -
  let ?rs = "findMatches e alert txns"
  have "sorted (map (\<lambda>r. - conf_value r) ?rs)"
    by (simp add: findMatches_sort_key)
  then have "sorted_wrt (\<lambda>a b. conf_value b \<le> conf_value a) ?rs"
    by (simp add: sorted_map)
  moreover have "\<forall>r \<in> set ?rs. \<exists>q. confidence r = Fin q"
    by (auto simp add: findMatches_set score_fin)
  ultimately show ?thesis
    by (auto simp add: num_ge_conf elim!: sorted_wrt_mono_rel [rotated])
qed

lemma third_score: "score sample_env sample_alert third_txn = Fin (1 / 10)"
  by (simp add: score_eval sample_eval2 num_eval)

lemma sample_findMatches:
  "findMatches sample_env sample_alert [other_txn, third_txn, sample_txn]
   = [scoreMatch sample_env sample_alert sample_txn,
      scoreMatch sample_env sample_alert other_txn,
      scoreMatch sample_env sample_alert third_txn]"
  by (simp add: findMatches_def array_sort_def sample_score other_score third_score num_eval)

lemma similarity_abc_abd: "calculateSimilarity (str ''abc'') (str ''abd'') = Fin (2 / 3)"
  by (simp add: calculateSimilarity_def str_def trim_def toLowerCase_def lower_unit_def
      is_space_def levenshteinDistance_def lev_outer_def lev_inner_def array_set_def charAt_def
      num_sub_def)

section \<open>Properties of the parser\<close>

subsection \<open>Soundness of the matcher for the language of a pattern\<close>

lemma run_Star_mem:
  assumes "st' \<in> set (run (Star a) st)" and "st' \<noteq> st"
  obtains st1 where "st1 \<in> set (run a st)" "length (fst st1) < length (fst st)"
    "st' \<in> set (run (Star a) st1)"
proof -
  from assms(1) have "st' \<in> set (concat (map (\<lambda>st1. if length (fst st1) < length (fst st)
      then run (Star a) st1 else []) (run a st)) @ [st])"
    by (subst (asm) run.simps(5)) assumption
  with assms(2) obtain st1 where "st1 \<in> set (run a st)"
    "st' \<in> set (if length (fst st1) < length (fst st) then run (Star a) st1 else [])"
    by auto
  then show ?thesis
    using that by (cases "length (fst st1) < length (fst st)") simp_all
qed

lemma run_sound:
  "st' \<in> set (run r st) \<Longrightarrow> \<exists>w. fst st = w @ fst st' \<and> w \<in> lang r"
proof (induction r st arbitrary: st' rule: run.induct)
  case (1 st)
  then show ?case by simp
next
  case (2 p st)
  then show ?case by (cases "fst st") (auto split: if_splits)
next
  case (3 a b st)
  from "3.prems" obtain st1 where st1: "st1 \<in> set (run a st)" "st' \<in> set (run b st1)"
    by auto
  from "3.IH"(1) [OF st1(1)] obtain w1 where w1: "fst st = w1 @ fst st1" "w1 \<in> lang a"
    by blast
  from "3.IH"(2) [OF st1(1) st1(2)] obtain w2 where w2: "fst st1 = w2 @ fst st'" "w2 \<in> lang b"
    by blast
  have "fst st = (w1 @ w2) @ fst st'" using w1 w2 by simp
  moreover have "w1 @ w2 \<in> lang (Seq a b)" using w1 w2 by auto
  ultimately show ?case by blast
next
  case (4 a b st)
  from "4.prems" consider "st' \<in> set (run a st)" | "st' \<in> set (run b st)"
    by auto
  then show ?case
  proof cases
    case 1
    from "4.IH"(1) [OF 1] obtain w where w: "fst st = w @ fst st'" "w \<in> lang a"
      by blast
    then have "w \<in> lang (Alt a b)" by simp
    with w(1) show ?thesis by blast
  next
    case 2
    from "4.IH"(2) [OF 2] obtain w where w: "fst st = w @ fst st'" "w \<in> lang b"
      by blast
    then have "w \<in> lang (Alt a b)" by simp
    with w(1) show ?thesis by blast
  qed
next
  case (5 a st)
  show ?case
  proof (cases "st' = st")
    case True
    then show ?thesis by (auto intro: star.star_nil)
  next
    case False
    with "5.prems" obtain st1 where st1: "st1 \<in> set (run a st)"
      "length (fst st1) < length (fst st)" "st' \<in> set (run (Star a) st1)"
      by (auto elim: run_Star_mem)
    from "5.IH"(1) [OF st1(1)] obtain w1 where w1: "fst st = w1 @ fst st1" "w1 \<in> lang a"
      by blast
    from "5.IH"(2) [OF st1(1) st1(2) st1(3)] obtain w2 where
      w2: "fst st1 = w2 @ fst st'" "w2 \<in> lang (Star a)"
      by blast
    have "fst st = (w1 @ w2) @ fst st'" using w1 w2 by simp
    moreover have "w1 @ w2 \<in> lang (Star a)" using w1 w2 by (auto intro: star.star_step)
    ultimately show ?thesis by blast
  qed
next
  case (6 a st)
  from "6.prems" obtain st1 where st1: "st1 \<in> set (run a st)" "fst st' = fst st1"
    by auto
  from "6.IH" [OF st1(1)] show ?case using st1(2) by simp
qed

lemma run_capture:
  "cap_in L r \<Longrightarrow> st' \<in> set (run r st) \<Longrightarrow>
   snd st' = snd st \<or> (\<exists>w \<in> L. snd st' = Some w)"
proof (induction r st arbitrary: st' rule: run.induct)
  case (1 st)
  then show ?case by simp
next
  case (2 p st)
  then show ?case by (cases "fst st") (auto split: if_splits)
next
  case (3 a b st)
  from "3.prems" obtain st1 where st1: "st1 \<in> set (run a st)" "st' \<in> set (run b st1)"
    by auto
  from "3.IH"(1) [OF _ st1(1)] "3.prems"(1)
  have a: "snd st1 = snd st \<or> (\<exists>w \<in> L. snd st1 = Some w)" by simp
  from "3.IH"(2) [OF st1(1) _ st1(2)] "3.prems"(1)
  have b: "snd st' = snd st1 \<or> (\<exists>w \<in> L. snd st' = Some w)" by simp
  from a b show ?case by auto
next
  case (4 a b st)
  from "4.prems" consider "st' \<in> set (run a st)" | "st' \<in> set (run b st)"
    by auto
  then show ?case
  proof cases
    case 1
    from "4.IH"(1) [OF _ 1] "4.prems"(1) show ?thesis by simp
  next
    case 2
    from "4.IH"(2) [OF _ 2] "4.prems"(1) show ?thesis by simp
  qed
next
  case (5 a st)
  show ?case
  proof (cases "st' = st")
    case True
    then show ?thesis by simp
  next
    case False
    with "5.prems" obtain st1 where st1: "st1 \<in> set (run a st)"
      "length (fst st1) < length (fst st)" "st' \<in> set (run (Star a) st1)"
      by (auto elim: run_Star_mem)
    from "5.IH"(1) [OF _ st1(1)] "5.prems"(1)
    have a: "snd st1 = snd st \<or> (\<exists>w \<in> L. snd st1 = Some w)" by simp
    from "5.IH"(2) [OF st1(1) st1(2) _ st1(3)] "5.prems"(1)
    have b: "snd st' = snd st1 \<or> (\<exists>w \<in> L. snd st' = Some w)" by simp
    from a b show ?thesis by auto
  qed
next
  case (6 a st)
  from "6.prems" obtain st1 where st1: "st1 \<in> set (run a st)"
    "st' = (fst st1, Some (take (length (fst st) - length (fst st1)) (fst st)))"
    by auto
  from run_sound [OF st1(1)] obtain w where w: "fst st = w @ fst st1" "w \<in> lang a"
    by blast
  have "take (length (fst st) - length (fst st1)) (fst st) = w"
    using w(1) by simp
  then show ?case using st1(2) w(2) "6.prems"(1) by auto
qed

lemma run_keeps_capture:
  "snd st \<noteq> None \<Longrightarrow> st' \<in> set (run r st) \<Longrightarrow> snd st' \<noteq> None"
proof (induction r st arbitrary: st' rule: run.induct)
  case (1 st)
  then show ?case by simp
next
  case (2 p st)
  then show ?case by (cases "fst st") (auto split: if_splits)
next
  case (3 a b st)
  from "3.prems" obtain st1 where st1: "st1 \<in> set (run a st)" "st' \<in> set (run b st1)"
    by auto
  from "3.IH"(1) [OF "3.prems"(1) st1(1)] have "snd st1 \<noteq> None" .
  from "3.IH"(2) [OF st1(1) this st1(2)] show ?case .
next
  case (4 a b st)
  from "4.prems" consider "st' \<in> set (run a st)" | "st' \<in> set (run b st)"
    by auto
  then show ?case
  proof cases
    case 1
    from "4.IH"(1) [OF "4.prems"(1) 1] show ?thesis .
  next
    case 2
    from "4.IH"(2) [OF "4.prems"(1) 2] show ?thesis .
  qed
next
  case (5 a st)
  show ?case
  proof (cases "st' = st")
    case True
    then show ?thesis using "5.prems" by simp
  next
    case False
    with "5.prems" obtain st1 where st1: "st1 \<in> set (run a st)"
      "length (fst st1) < length (fst st)" "st' \<in> set (run (Star a) st1)"
      by (auto elim: run_Star_mem)
    from "5.IH"(1) [OF "5.prems"(1) st1(1)] have "snd st1 \<noteq> None" .
    from "5.IH"(2) [OF st1(1) st1(2) this st1(3)] show ?thesis .
  qed
next
  case (6 a st)
  then show ?case by auto
qed

lemma run_captures:
  "captures r \<Longrightarrow> st' \<in> set (run r st) \<Longrightarrow> snd st' \<noteq> None"
proof (induction r arbitrary: st st')
  case (Seq a b)
  from Seq.prems(2) obtain st1 where st1: "st1 \<in> set (run a st)" "st' \<in> set (run b st1)"
    by auto
  show ?case
  proof (cases "captures a")
    case True
    from Seq.IH(1) [OF True st1(1)] have "snd st1 \<noteq> None" .
    then show ?thesis using st1(2) by (rule run_keeps_capture)
  next
    case False
    with Seq.prems(1) have "captures b" by simp
    from Seq.IH(2) [OF this st1(2)] show ?thesis .
  qed
next
  case (Alt a b)
  from Alt.prems(2) consider "st' \<in> set (run a st)" | "st' \<in> set (run b st)"
    by auto
  then show ?case
  proof cases
    case 1
    from Alt.IH(1) [OF _ 1] Alt.prems(1) show ?thesis by simp
  next
    case 2
    from Alt.IH(2) [OF _ 2] Alt.prems(1) show ?thesis by simp
  qed
next
  case (Group a)
  then show ?case by auto
qed simp_all

lemma search_run:
  "search r s = Some m \<Longrightarrow> \<exists>s0 st. st \<in> set (run r (s0, None)) \<and> group1 m = snd st"
proof (induction s)
  case Nil
  show ?case
  proof (cases "run r ([], None)")
    case Nil
    with Nil.prems show ?thesis by simp
  next
    case (Cons st sts)
    then have "st \<in> set (run r ([], None))" by simp
    moreover have "group1 m = snd st" using Cons Nil.prems by auto
    ultimately show ?thesis by blast
  qed
next
  case (Cons c cs)
  show ?case
  proof (cases "run r (c # cs, None)")
    case Nil
    with Cons show ?thesis by simp
  next
    case (Cons st sts)
    then have "st \<in> set (run r (c # cs, None))" by simp
    moreover have "group1 m = snd st" using Cons Cons.prems by auto
    ultimately show ?thesis by blast
  qed
qed

lemma search_group:
  assumes "search r s = Some m" and "cap_in L r" and "captures r"
  shows "\<exists>w \<in> L. group1 m = Some w"
proof -
  from search_run [OF assms(1)] obtain s0 st where
    st: "st \<in> set (run r (s0, None))" "group1 m = snd st"
    by blast
  from run_captures [OF assms(3) st(1)] have "snd st \<noteq> None" .
  with run_capture [OF assms(2) st(1)] st(2) show ?thesis by auto
qed

subsection \<open>The patterns of the table\<close>

lemma cap_in_seqs [simp]: "cap_in L (seqs rs) = (\<forall>r \<in> set rs. cap_in L r)"
  by (induction rs) (simp_all add: seqs_def)

lemma captures_seqs [simp]: "captures (seqs rs) = (\<exists>r \<in> set rs. captures r)"
  by (induction rs) (simp_all add: seqs_def)

lemma cap_in_lit_i [simp]: "cap_in L (lit_i s)"
  by (simp add: lit_i_def chr_i_def)

lemma cap_in_simple [simp]:
  "cap_in L (Opt (chr x))" "cap_in L space" "cap_in L (chr x)"
  by (simp_all add: Opt_def chr_def space_def)

lemma cap_in_amount_token [simp]: "cap_in (lang amount_token) amount_token"
  by (simp add: amount_token_def)

lemma captures_amount_token [simp]: "captures amount_token"
  by (simp add: amount_token_def)

lemma builtin_patterns:
  assumes "lookup_patterns BANK_PATTERNS b = Own p"
  shows "p = gtbank \<or> p = access \<or> p = firstbank"
  using assms
  by (auto simp add: lookup_patterns_def BANK_PATTERNS_def split: if_splits)

lemma amountPattern_groups:
  assumes "p = gtbank \<or> p = access \<or> p = firstbank"
  shows "cap_in (lang amount_token) (amountPattern p) \<and> captures (amountPattern p)"
  using assms by (auto simp add: gtbank_def access_def firstbank_def)

lemma star_Sym: "w \<in> star (lang (Sym p)) \<Longrightarrow> \<forall>x \<in> set w. p x"
  by (induction rule: star.induct) auto

lemma lang_seqs_Cons: "lang (seqs (r # rs)) = {u @ v | u v. u \<in> lang r \<and> v \<in> lang (seqs rs)}"
  by (simp add: seqs_def)

lemma lang_seqs_Nil: "lang (seqs []) = {[]}"
  by (simp add: seqs_def)

lemma amount_token_shape:
  assumes "w \<in> lang amount_token"
  shows "\<exists>a b c. w = a @ b @ c \<and> a \<noteq> [] \<and> (\<forall>x \<in> set a. is_digit x \<or> x = comma)
           \<and> (b = [] \<or> b = [46]) \<and> (\<forall>x \<in> set c. is_digit x)"
proof -
  from assms obtain a b c where w: "w = a @ b @ c"
    and a: "a \<in> lang (Plus (Sym (\<lambda>c. is_digit c \<or> c = comma)))"
    and b: "b \<in> lang (Opt (chr 46))" and c: "c \<in> lang (Star digit)"
    by (auto simp add: amount_token_def lang_seqs_Cons lang_seqs_Nil)
  from a obtain x xs where ax: "a = [x] @ xs" "is_digit x \<or> x = comma"
    "xs \<in> star (lang (Sym (\<lambda>c. is_digit c \<or> c = comma)))"
    by (auto simp add: Plus_def)
  from star_Sym [OF ax(3)] have "\<forall>y \<in> set xs. is_digit y \<or> y = comma" .
  with ax(1,2) have a': "a \<noteq> []" "\<forall>x \<in> set a. is_digit x \<or> x = comma"
    by auto
  from b have b': "b = [] \<or> b = [46]"
    by (auto simp add: Opt_def chr_def)
  from c have "c \<in> star (lang (Sym is_digit))"
    by (simp add: digit_def)
  from star_Sym [OF this] have c': "\<forall>x \<in> set c. is_digit x" .
  from w a' b' c' show ?thesis by blast
qed

text \<open>Keywords: a text matched by a case-insensitive literal is the literal up to case.\<close>

lemma lang_chr_i_seqs:
  "w \<in> lang (seqs (map chr_i xs)) \<Longrightarrow> toLowerCase w = toLowerCase xs"
proof (induction xs arbitrary: w)
  case Nil
  then show ?case by (simp add: lang_seqs_Nil)
next
  case (Cons x xs)
  then show ?case
    by (auto simp add: lang_seqs_Cons chr_i_def toLowerCase_def)
qed

lemma lang_lit_i: "w \<in> lang (lit_i s) \<Longrightarrow> toLowerCase w = toLowerCase (str s)"
  by (simp add: lit_i_def lang_chr_i_seqs)

lemma typePattern_groups:
  assumes "p = gtbank \<or> p = access \<or> p = firstbank"
  shows "cap_in {w. toLowerCase w \<in> set type_keywords} (typePattern p) \<and> captures (typePattern p)"
proof -
  have low: "toLowerCase (str ''debit'') = str ''debit''" "toLowerCase (str ''credit'') = str ''credit''"
    "toLowerCase (str ''withdrawal'') = str ''withdrawal''"
    "toLowerCase (str ''transfer'') = str ''transfer''"
    "toLowerCase (str ''payment'') = str ''payment''"
    "toLowerCase (str ''DEBIT'') = str ''debit''" "toLowerCase (str ''CREDIT'') = str ''credit''"
    "toLowerCase (str ''Withdrawal'') = str ''withdrawal''"
    "toLowerCase (str ''Transfer'') = str ''transfer''"
    "toLowerCase (str ''Payment'') = str ''payment''"
    "toLowerCase (str ''Debit'') = str ''debit''" "toLowerCase (str ''Credit'') = str ''credit''"
    by (simp_all add: toLowerCase_def str_def lower_unit_def)
  have kw: "str ''debit'' \<in> set type_keywords" "str ''credit'' \<in> set type_keywords"
    "str ''withdrawal'' \<in> set type_keywords" "str ''transfer'' \<in> set type_keywords"
    "str ''payment'' \<in> set type_keywords"
    by (simp_all add: type_keywords_def)
  show ?thesis
    using assms kw
    by (auto simp add: gtbank_def access_def firstbank_def alts_def low dest!: lang_lit_i)
qed

subsection \<open>parseFloat on an amount token\<close>

lemma digit_facts:
  assumes "is_digit x"
  shows "\<not> is_space x" "x \<noteq> 45" "x \<noteq> 43" "x \<noteq> 73" "x \<noteq> 46" "x \<noteq> comma"
  using assms by (auto simp add: is_digit_def is_space_def comma_def)

lemma takeWhile_all: "\<forall>x \<in> set xs. P x \<Longrightarrow> takeWhile P xs = xs"
  by (induction xs) auto

lemma dropWhile_all: "\<forall>x \<in> set xs. P x \<Longrightarrow> dropWhile P xs = []"
  by (induction xs) auto

lemma takeWhile_digits_point:
  "\<forall>x \<in> set ds. is_digit x \<Longrightarrow> takeWhile is_digit (ds @ 46 # r) = ds"
  by (induction ds) (auto simp add: is_digit_def)

lemma dropWhile_digits_point:
  "\<forall>x \<in> set ds. is_digit x \<Longrightarrow> dropWhile is_digit (ds @ 46 # r) = 46 # r"
  by (induction ds) (auto simp add: is_digit_def)

lemma not_Infinity: "u = [] \<or> hd u \<noteq> 73 \<Longrightarrow> \<not> is_prefix (str ''Infinity'') u"
  by (cases u) (auto simp add: str_def)

lemma digits_value_Nil [simp]: "digits_value [] = 0"
  by (simp add: digits_value_def)

lemma parseFloat_plain:
  assumes s: "s = [] \<or> (\<not> is_space (hd s) \<and> hd s \<noteq> 45 \<and> hd s \<noteq> 43 \<and> hd s \<noteq> 73)"
  shows "parseFloat s =
    (let ip = takeWhile is_digit s;
         r1 = dropWhile is_digit s;
         has_point = (r1 \<noteq> [] \<and> hd r1 = 46);
         fp = (if has_point then takeWhile is_digit (tl r1) else []);
         r2 = (if has_point then dropWhile is_digit (tl r1) else r1)
     in if ip = [] \<and> fp = [] then NaN
        else num_of ((of_nat (digits_value ip) + of_nat (digits_value fp) / 10 ^ length fp)
                     * pow10 (exponent_of r2)))"
proof -
  have d: "dropWhile is_space s = s"
    using s by (cases s) auto
  have n: "\<not> is_prefix (str ''Infinity'') s"
    using s by (intro not_Infinity) auto
  show ?thesis
    using s n by (cases s) (simp_all add: parseFloat_def d Let_def)
qed

lemma parseFloat_token:
  assumes a: "\<forall>x \<in> set a. is_digit x" and c: "\<forall>x \<in> set c. is_digit x"
    and b: "b = [] \<or> b = [46]" and ne: "a @ c \<noteq> []"
  shows "\<exists>v. 0 \<le> v \<and> parseFloat (a @ b @ c) = num_of v"
proof -
  let ?s = "a @ b @ c"
  have hd: "?s = [] \<or> (\<not> is_space (hd ?s) \<and> hd ?s \<noteq> 45 \<and> hd ?s \<noteq> 43 \<and> hd ?s \<noteq> 73)"
  proof (cases a)
    case Nil
    then show ?thesis
      using b c ne digit_facts by (cases c) (auto simp add: is_space_def)
  next
    case (Cons x xs)
    then show ?thesis using a digit_facts by auto
  qed
  from b show ?thesis
  proof
    assume b0: "b = []"
    have all: "\<forall>x \<in> set (a @ c). is_digit x" using a c by auto
    have "parseFloat (a @ c) = num_of (of_nat (digits_value (a @ c)))"
      using hd ne b0
      by (simp add: parseFloat_plain takeWhile_all [OF all] dropWhile_all [OF all]
          exponent_of_def pow10_def del: append_is_Nil_conv)
    then show ?thesis using b0 by (intro exI [of _ "of_nat (digits_value (a @ c))"]) simp
  next
    assume b1: "b = [46]"
    let ?v = "of_nat (digits_value a) + of_nat (digits_value c) / 10 ^ length c :: rat"
    have nn: "\<not> (a = [] \<and> c = [])" using ne by simp
    have "parseFloat (a @ 46 # c) = num_of ?v"
      using hd b1
      by (simp add: nn parseFloat_plain takeWhile_digits_point [OF a] dropWhile_digits_point [OF a]
          takeWhile_all [OF c] dropWhile_all [OF c] exponent_of_def pow10_def Let_def)
    moreover have "0 \<le> ?v" by simp
    ultimately show ?thesis using b1 by (intro exI [of _ ?v]) simp
  qed
qed

lemma amount_token_value:
  assumes w: "w \<in> lang amount_token" and d: "\<exists>x \<in> set w. is_digit x"
  shows "\<exists>v. 0 \<le> v \<and> parseFloat (filter (\<lambda>c. c \<noteq> comma) w) = num_of v"
proof -
  from amount_token_shape [OF w] obtain a b c where
    sh: "w = a @ b @ c" "\<forall>x \<in> set a. is_digit x \<or> x = comma" "b = [] \<or> b = [46]"
      "\<forall>x \<in> set c. is_digit x"
    by blast
  let ?a = "filter (\<lambda>c. c \<noteq> comma) a"
  have fa: "\<forall>x \<in> set ?a. is_digit x" using sh(2) by auto
  have fb: "filter (\<lambda>c. c \<noteq> comma) b = b" using sh(3) by (auto simp add: comma_def)
  have fc: "filter (\<lambda>c. c \<noteq> comma) c = c" using sh(4) digit_facts(6) by (auto intro: filter_True)
  have ne: "?a @ c \<noteq> []"
  proof -
    from d sh(1) obtain x where x: "is_digit x" "x \<in> set a \<or> x \<in> set b \<or> x \<in> set c"
      by auto
    have nb: "x \<notin> set b" using sh(3) x(1) digit_facts(5) by auto
    have xa: "x \<in> set ?a" if "x \<in> set a" using that x(1) digit_facts(6) by auto
    from x(2) nb consider "x \<in> set a" | "x \<in> set c" by blast
    then show ?thesis
    proof cases
      case 1
      from length_pos_if_in_set [OF xa [OF 1]] show ?thesis by simp
    next
      case 2
      then show ?thesis by auto
    qed
  qed
  have "filter (\<lambda>c. c \<noteq> comma) w = ?a @ b @ c"
    using sh(1) fb fc by simp
  with parseFloat_token [OF fa sh(4) sh(3) ne] show ?thesis by simp
qed

lemma num_of_nonneg:
  "0 \<le> v \<Longrightarrow> (\<exists>q. num_of v = Fin q \<and> 0 \<le> q \<and> q < overflow_bound) \<or> num_of v = PosInf"
  by (auto simp add: num_of_def)

subsection \<open>Evaluating the parser on a given text\<close>

lemma rep_exact_numeral [simp]:
  "rep_exact (numeral k) r = Seq r (rep_exact (pred_numeral k) r)"
  by (simp add: numeral_eq_Suc)

lemma rep_upto_numeral [simp]:
  "rep_upto (numeral k) r = Alt (Seq r (rep_upto (pred_numeral k) r)) Eps"
  by (simp add: numeral_eq_Suc)

lemmas regex_eval = run.simps(5) seqs_def lit_i_def chr_def chr_i_def alts_def Opt_def
  Plus_def Rep_def digit_def space_def word_def is_digit_def is_word_def is_space_def comma_def
  naira_def lower_unit_def amount_token_def masked_account_def str_def

lemmas parse_eval = parseEmail_def lookup_patterns_def BANK_PATTERNS_def
  object_prototype_keys_def pattern_of_def str_match_def amount_of_def transactionType_of_def
  timestamp_of_def accountNumber_of_def substring_def toLowerCase_def
  gtbank_def access_def firstbank_def

lemmas float_eval = parseFloat_def digits_value_def exponent_of_def pow10_def num_of_def
  overflow_bound_def

subsection \<open>The first match of a greedy pattern\<close>

lemma first_of_iff: "first_of r st st' = (\<exists>more. run r st = st' # more)"
  by (auto simp add: first_of_def split: list.splits)

lemma first_Eps: "first_of Eps st st"
  by (simp add: first_of_iff)

lemma first_Sym: "p c \<Longrightarrow> first_of (Sym p) (c # cs, g) (cs, g)"
  by (simp add: first_of_iff)

lemma first_Seq: "first_of a st st1 \<Longrightarrow> first_of b st1 st2 \<Longrightarrow> first_of (Seq a b) st st2"
  by (auto simp add: first_of_iff)

lemma first_Alt_left: "first_of a st st' \<Longrightarrow> first_of (Alt a b) st st'"
  by (auto simp add: first_of_iff)

lemma first_Alt_right: "run a st = [] \<Longrightarrow> first_of b st st' \<Longrightarrow> first_of (Alt a b) st st'"
  by (auto simp add: first_of_iff)

lemma first_Group:
  "first_of a st st' \<Longrightarrow>
   first_of (Group a) st (fst st', Some (take (length (fst st) - length (fst st')) (fst st)))"
  by (auto simp add: first_of_iff)

lemma first_Star_class:
  assumes "\<forall>x \<in> set ds. p x" and "rest = [] \<or> \<not> p (hd rest)"
  shows "first_of (Star (Sym p)) (ds @ rest, g) (rest, g)"
  using assms(1)
proof (induction ds)
  case Nil
  have "run (Sym p) (rest, g) = []"
    using assms(2) by (cases rest) auto
  then show ?case
    by (subst first_of_iff, subst run.simps(5)) simp
next
  case (Cons d ds)
  then obtain more where more: "run (Star (Sym p)) (ds @ rest, g) = (rest, g) # more"
    by (auto simp add: first_of_iff)
  have "run (Sym p) ((d # ds) @ rest, g) = [(ds @ rest, g)]"
    using Cons.prems by simp
  then have "run (Star (Sym p)) ((d # ds) @ rest, g)
             = run (Star (Sym p)) (ds @ rest, g) @ [((d # ds) @ rest, g)]"
    by (subst run.simps(5)) simp
  with more show ?case by (simp add: first_of_iff)
qed

lemma search_first:
  assumes "first_of r (c # cs, None) st"
  shows "search r (c # cs)
         = Some \<lparr> matched_text = take (length (c # cs) - length (fst st)) (c # cs),
                  group1 = snd st \<rparr>"
  using assms by (auto simp add: first_of_iff)

text \<open>A GTBank amount line whose figure is a run of digits: the whole run is the token.\<close>

lemma gtbank_amount_digits:
  assumes ds: "\<forall>x \<in> set ds. is_digit x" and d: "is_digit d"
  shows "search (amountPattern gtbank) (str ''Amount: '' @ d # ds)
         = Some \<lparr> matched_text = str ''Amount: '' @ d # ds, group1 = Some (d # ds) \<rparr>"
proof -
  let ?tok = "d # ds"
  have lit: "first_of (lit_i ''Amount:'') (str ''Amount: '' @ ?tok, None) (32 # ?tok, None)"
    by (simp add: first_of_iff lit_i_def seqs_def chr_i_def str_def lower_unit_def)
  have sp: "first_of (Star space) (32 # ?tok, None) (?tok, None)"
    using first_Star_class [of "[32]" is_space ?tok None] d digit_facts(1)
    by (simp add: space_def is_space_def)
  have nd: "d \<noteq> naira" using d by (simp add: is_digit_def naira_def)
  have nai: "first_of (Opt (chr naira)) (?tok, None) (?tok, None)"
    unfolding Opt_def using nd
    by (intro first_Alt_right first_Eps) (simp add: chr_def)
  have plus: "first_of (Plus (Sym (\<lambda>c. is_digit c \<or> c = comma))) (?tok, None) ([], None)"
    unfolding Plus_def
    using first_Star_class [of ds "\<lambda>c. is_digit c \<or> c = comma" "[]" None] ds d
    by (intro first_Seq [OF first_Sym]) simp_all
  have dot: "first_of (Opt (chr 46)) ([], None) ([], None)"
    unfolding Opt_def by (intro first_Alt_right first_Eps) (simp add: chr_def)
  have dig: "first_of (Star digit) ([], None) ([], None)"
    using first_Star_class [of "[]" is_digit "[]" None] by (simp add: digit_def)
  have body: "first_of (seqs [Plus (Sym (\<lambda>c. is_digit c \<or> c = comma)), Opt (chr 46), Star digit])
                (?tok, None) ([], None)"
    unfolding seqs_def foldr.simps o_apply id_apply
    by (intro first_Seq [OF plus] first_Seq [OF dot] first_Seq [OF dig] first_Eps)
  have grp: "first_of amount_token (?tok, None) ([], Some ?tok)"
    using first_Group [OF body] by (simp add: amount_token_def)
  have "first_of (amountPattern gtbank) (str ''Amount: '' @ ?tok, None) ([], Some ?tok)"
    unfolding gtbank_def seqs_def patterns.simps foldr.simps o_apply id_apply
    by (intro first_Seq [OF lit] first_Seq [OF sp] first_Seq [OF nai] first_Seq [OF grp] first_Eps)
  moreover have "str ''Amount: '' @ ?tok = 65 # (str ''mount: '' @ ?tok)"
    by (simp add: str_def)
  ultimately show ?thesis
    using search_first [of "amountPattern gtbank" 65 "str ''mount: '' @ ?tok" "([], Some ?tok)"]
    by simp
qed

lemma digits_value_snoc: "digits_value (ds @ [c]) = 10 * digits_value ds + (c - 48)"
  by (simp add: digits_value_def)

lemma digits_value_nines: "digits_value (replicate n 57) + 1 = 10 ^ n"
proof (induction n)
  case 0
  then show ?case by simp
next
  case (Suc n)
  have "replicate (Suc n) 57 = replicate n (57::nat) @ [57]"
    by (simp add: replicate_append_same)
  then have "digits_value (replicate (Suc n) 57) = 10 * digits_value (replicate n 57) + 9"
    by (simp add: digits_value_snoc)
  with Suc show ?case by simp
qed

lemma parseFloat_nines:
  assumes "0 < n"
  shows "parseFloat (replicate n 57) = num_of (10 ^ n - 1)"
proof -
  have all: "\<forall>x \<in> set (replicate n 57). is_digit x"
    by (simp add: is_digit_def)
  have h: "hd (replicate n 57) = (57::nat)" "replicate n (57::nat) \<noteq> []"
    using assms by (cases n, simp_all)+
  have "parseFloat (replicate n 57) = num_of (of_nat (digits_value (replicate n 57)))"
    using h
    by (subst parseFloat_plain)
       (simp_all add: takeWhile_all [OF all] dropWhile_all [OF all] exponent_of_def pow10_def
          is_space_def is_digit_def)
  moreover have "(of_nat (digits_value (replicate n 57)) :: rat) = 10 ^ n - 1"
    using digits_value_nines [of n]
    by (metis add_diff_cancel_right' of_nat_1 of_nat_add of_nat_numeral of_nat_power)
  ultimately show ?thesis by simp
qed

subsection \<open>parseEmail on a profile of the table\<close>

lemma parseEmail_Own:
  assumes "lookup_patterns BANK_PATTERNS b = Own p"
  shows "parseEmail BANK_PATTERNS e email b =
    (case amount_of (search (amountPattern p) email) of
       Inl err \<Rightarrow> Inl err
     | Inr v \<Rightarrow>
         Inr \<lparr> PartialBankAlert.timestamp = timestamp_of e (search (timePattern p) email),
               PartialBankAlert.amount = v,
               PartialBankAlert.currency = str ''NGN'',
               PartialBankAlert.accountNumber = accountNumber_of (search (accountPattern p) email),
               PartialBankAlert.description = substring email 0 200,
               transactionType = transactionType_of (search (typePattern p) email),
               rawEmail = email,
               bank = b \<rparr>)"
  using assms by (simp add: parseEmail_def pattern_of_def str_match_def Let_def split: sum.splits)

lemma parseEmail_Inherited:
  assumes "lookup_patterns BANK_PATTERNS b = Inherited"
  shows "parseEmail BANK_PATTERNS e email b = Inl TypeError"
  using assms by (simp add: parseEmail_def pattern_of_def str_match_def amount_of_def Let_def)

lemma amount_search_token:
  assumes "p = gtbank \<or> p = access \<or> p = firstbank" and "search (amountPattern p) email = Some m"
  shows "\<exists>tok \<in> lang amount_token. group1 m = Some tok"
  using amountPattern_groups [OF assms(1)] search_group [OF assms(2)] by blast

lemma amount_of_total:
  assumes "p = gtbank \<or> p = access \<or> p = firstbank"
  shows "\<exists>v. amount_of (search (amountPattern p) email) = Inr v"
proof (cases "search (amountPattern p) email")
  case None
  then show ?thesis by (simp add: amount_of_def)
next
  case (Some m)
  from amount_search_token [OF assms Some] show ?thesis
    using Some by (auto simp add: amount_of_def)
qed

lemma lookup_not_inherited:
  assumes "b \<notin> set object_prototype_keys"
  shows "\<exists>p. lookup_patterns BANK_PATTERNS b = Own p
           \<and> (b \<notin> fst ` set BANK_PATTERNS \<longrightarrow> p = gtbank)"
  using assms by (auto simp add: lookup_patterns_def BANK_PATTERNS_def)

lemma lookup_gtbank: "lookup_patterns BANK_PATTERNS (str ''gtbank'') = Own gtbank"
  by (simp add: lookup_patterns_def BANK_PATTERNS_def)

lemma lookup_access: "lookup_patterns BANK_PATTERNS (str ''access'') = Own access"
  by (simp add: lookup_patterns_def BANK_PATTERNS_def str_def)

lemma lookup_firstbank: "lookup_patterns BANK_PATTERNS (str ''firstbank'') = Own firstbank"
  by (simp add: lookup_patterns_def BANK_PATTERNS_def str_def)

lemma plain_email_parse:
  "parseEmail BANK_PATTERNS sample_env plain_email (str ''gtbank'')
   = Inr \<lparr> PartialBankAlert.timestamp = TsDate (Fin 1729002645000),
           PartialBankAlert.amount = Fin 50000,
           PartialBankAlert.currency = str ''NGN'',
           PartialBankAlert.accountNumber = str ''****1234'',
           PartialBankAlert.description = plain_email, transactionType = credit,
           rawEmail = plain_email, bank = str ''gtbank'' \<rparr>"
  by (simp add: plain_email_def parse_eval regex_eval float_eval sample_env_def Let_def)

lemma no_fields_email_parse:
  "parseEmail BANK_PATTERNS sample_env no_fields_email (str ''gtbank'')
   = Inr \<lparr> PartialBankAlert.timestamp = TsDate (Fin 1729002645000),
           PartialBankAlert.amount = Fin 0,
           PartialBankAlert.currency = str ''NGN'',
           PartialBankAlert.accountNumber = [],
           PartialBankAlert.description = no_fields_email, transactionType = debit,
           rawEmail = no_fields_email, bank = str ''gtbank'' \<rparr>"
  by (simp add: no_fields_email_def parse_eval regex_eval float_eval sample_env_def Let_def)

lemma plain_email_amount_search:
  "search (amountPattern gtbank) plain_email
   = Some \<lparr> matched_text = str ''Amount: 50,000.00'', group1 = Some (str ''50,000.00'') \<rparr>"
  by (simp add: plain_email_def gtbank_def regex_eval)

lemma no_fields_email_amount_search: "search (amountPattern gtbank) no_fields_email = None"
  by (simp add: no_fields_email_def gtbank_def regex_eval)

section \<open>The properties of the specification\<close>

text \<open>
  C1, as the code has it. For every text and every format name that resolves to a
  profile, \<open>parseEmail\<close> returns an alert whose amount is 0 when the amount pattern does
  not match; when the pattern matches, the amount is \<open>parseFloat\<close> of the captured token
  without its commas, and if the token has a digit this is a non-negative number, finite
  unless the value reaches the overflow threshold of binary64, where it is
  \<open>Infinity\<close>.
\<close>

theorem parseEmail_amount_of_token:
  assumes "lookup_patterns BANK_PATTERNS bank' = Own p"
  shows "\<exists>a. parseEmail BANK_PATTERNS e email bank' = Inr a
    \<and> (search (amountPattern p) email = None \<longrightarrow> PartialBankAlert.amount a = Fin 0)
    \<and> (\<forall>m. search (amountPattern p) email = Some m \<longrightarrow>
          (\<exists>tok. group1 m = Some tok
             \<and> PartialBankAlert.amount a = parseFloat (filter (\<lambda>c. c \<noteq> comma) tok)
             \<and> ((\<exists>x \<in> set tok. is_digit x) \<longrightarrow>
                  (\<exists>q. PartialBankAlert.amount a = Fin q \<and> 0 \<le> q \<and> q < overflow_bound)
                  \<or> PartialBankAlert.amount a = PosInf)))"
proof -
  have p: "p = gtbank \<or> p = access \<or> p = firstbank"
    by (rule builtin_patterns [OF assms])
  from amount_of_total [OF p] obtain v where v: "amount_of (search (amountPattern p) email) = Inr v"
    by blast
  let ?a = "\<lparr> PartialBankAlert.timestamp = timestamp_of e (search (timePattern p) email),
               PartialBankAlert.amount = v,
               PartialBankAlert.currency = str ''NGN'',
               PartialBankAlert.accountNumber = accountNumber_of (search (accountPattern p) email),
               PartialBankAlert.description = substring email 0 200,
               transactionType = transactionType_of (search (typePattern p) email),
               rawEmail = email,
               bank = bank' \<rparr>"
  have r: "parseEmail BANK_PATTERNS e email bank' = Inr ?a"
    using v by (simp add: parseEmail_Own [OF assms])
  have none: "v = Fin 0" if "search (amountPattern p) email = None"
    using that v by (simp add: amount_of_def)
  have some: "\<exists>tok. group1 m = Some tok \<and> v = parseFloat (filter (\<lambda>c. c \<noteq> comma) tok)
      \<and> ((\<exists>x \<in> set tok. is_digit x) \<longrightarrow>
            (\<exists>q. v = Fin q \<and> 0 \<le> q \<and> q < overflow_bound) \<or> v = PosInf)"
    if m: "search (amountPattern p) email = Some m" for m
  proof -
    from amount_search_token [OF p m] obtain tok where
      tok: "tok \<in> lang amount_token" "group1 m = Some tok"
      by blast
    have pv: "v = parseFloat (filter (\<lambda>c. c \<noteq> comma) tok)"
      using v m tok(2) by (simp add: amount_of_def)
    have "(\<exists>q. v = Fin q \<and> 0 \<le> q \<and> q < overflow_bound) \<or> v = PosInf"
      if d: "\<exists>x \<in> set tok. is_digit x"
    proof -
      from amount_token_value [OF tok(1) d] obtain w where
        w: "0 \<le> w" "parseFloat (filter (\<lambda>c. c \<noteq> comma) tok) = num_of w"
        by blast
      from num_of_nonneg [OF w(1)] show ?thesis using pv w(2) by simp
    qed
    with tok(2) pv show ?thesis by blast
  qed
  show ?thesis
    using r none some by (intro exI [of _ ?a]) simp
qed

theorem parseEmail_amount_of_token_witness:
  "lookup_patterns BANK_PATTERNS (str ''gtbank'') = Own gtbank
   \<and> search (amountPattern gtbank) no_fields_email = None
   \<and> PartialBankAlert.amount (projr (parseEmail BANK_PATTERNS sample_env no_fields_email (str ''gtbank''))) = Fin 0
   \<and> group1 (the (search (amountPattern gtbank) plain_email)) = Some (str ''50,000.00'')
   \<and> is_digit 53 \<and> 53 \<in> set (str ''50,000.00'')
   \<and> PartialBankAlert.amount (projr (parseEmail BANK_PATTERNS sample_env plain_email (str ''gtbank''))) = Fin 50000"
proof -
  from parseEmail_amount_of_token [OF lookup_gtbank, of sample_env no_fields_email]
  have a: "PartialBankAlert.amount (projr (parseEmail BANK_PATTERNS sample_env no_fields_email (str ''gtbank''))) = Fin 0"
    by (auto simp add: no_fields_email_amount_search)
  from parseEmail_amount_of_token [OF lookup_gtbank, of sample_env plain_email]
  have "PartialBankAlert.amount (projr (parseEmail BANK_PATTERNS sample_env plain_email (str ''gtbank'')))
        = parseFloat (filter (\<lambda>c. c \<noteq> comma) (str ''50,000.00''))"
    by (auto simp add: plain_email_amount_search)
  also have "\<dots> = Fin 50000"
    by (simp add: float_eval str_def comma_def is_digit_def is_space_def Let_def)
  finally have b: "PartialBankAlert.amount (projr (parseEmail BANK_PATTERNS sample_env plain_email (str ''gtbank''))) = Fin 50000" .
  have c: "is_digit 53 \<and> 53 \<in> set (str ''50,000.00'')"
    by (simp add: is_digit_def str_def)
  show ?thesis
    using a b c by (simp add: lookup_gtbank no_fields_email_amount_search plain_email_amount_search)
qed

theorem parseEmail_amount_counterexample:
  "\<not> isl (parseEmail BANK_PATTERNS sample_env empty_token_email (str ''gtbank''))
   \<and> PartialBankAlert.amount (projr (parseEmail BANK_PATTERNS sample_env empty_token_email (str ''gtbank''))) = NaN
   \<and> \<not> isl (parseEmail BANK_PATTERNS sample_env huge_amount_email (str ''gtbank''))
   \<and> PartialBankAlert.amount (projr (parseEmail BANK_PATTERNS sample_env huge_amount_email (str ''gtbank''))) = PosInf"
proof -
  have a: "parseEmail BANK_PATTERNS sample_env empty_token_email (str ''gtbank'')
    = Inr \<lparr> PartialBankAlert.timestamp = TsDate (Fin 1729002645000), PartialBankAlert.amount = NaN,
       PartialBankAlert.currency = str ''NGN'', PartialBankAlert.accountNumber = [],
       PartialBankAlert.description = empty_token_email, transactionType = credit,
       rawEmail = empty_token_email, bank = str ''gtbank'' \<rparr>"
    by (simp add: empty_token_email_def parse_eval regex_eval float_eval sample_env_def Let_def)
  have r: "replicate 310 (57::nat) = 57 # replicate 309 57"
    by (simp add: numeral_eq_Suc)
  have s: "search (amountPattern gtbank) huge_amount_email
    = Some \<lparr> matched_text = huge_amount_email, group1 = Some (replicate 310 57) \<rparr>"
    unfolding huge_amount_email_def r
    by (rule gtbank_amount_digits) (simp_all add: is_digit_def)
  have "parseFloat (filter (\<lambda>c. c \<noteq> comma) (replicate 310 57)) = parseFloat (replicate 310 57)"
    by (simp add: comma_def)
  also have "\<dots> = num_of (10 ^ 310 - 1)"
    by (rule parseFloat_nines) simp
  also have "\<dots> = PosInf"
    by (simp add: num_of_def overflow_bound_def)
  finally have f: "parseFloat (filter (\<lambda>c. c \<noteq> comma) (replicate 310 57)) = PosInf" .
  have b: "\<not> isl (parseEmail BANK_PATTERNS sample_env huge_amount_email (str ''gtbank''))
    \<and> PartialBankAlert.amount (projr (parseEmail BANK_PATTERNS sample_env huge_amount_email (str ''gtbank''))) = PosInf"
    by (simp add: parseEmail_Own [OF lookup_gtbank] amount_of_def s f)
  show ?thesis
    using a b by simp
qed

text \<open>
  C2. The result of scoring one candidate is marked as matched exactly when its
  confidence is at least the threshold 0.6; a matched result carries the candidate's id,
  an unmatched one carries no id (\<open>null\<close>).
\<close>

theorem scoreMatch_matched_iff_threshold:
  "matched (scoreMatch e alert txn) = num_ge (confidence (scoreMatch e alert txn)) (Fin (6 / 10))
   \<and> (matched (scoreMatch e alert txn) \<longrightarrow>
        transactionId (scoreMatch e alert txn) = Some (Transaction.id txn))
   \<and> (\<not> matched (scoreMatch e alert txn) \<longrightarrow> transactionId (scoreMatch e alert txn) = None)"
  by (simp add: scoreMatch_def Let_def MIN_CONFIDENCE_THRESHOLD_def)

theorem scoreMatch_matched_iff_threshold_witness:
  "matched (scoreMatch sample_env sample_alert sample_txn)
   \<and> transactionId (scoreMatch sample_env sample_alert sample_txn) = Some (str ''txn-001'')
   \<and> \<not> matched (scoreMatch sample_env sample_alert other_txn)
   \<and> transactionId (scoreMatch sample_env sample_alert other_txn) = None"
proof -
  have i1: "Transaction.id sample_txn = str ''txn-001''"
    by (simp add: sample_txn_def)
  show ?thesis
    using scoreMatch_matched_iff_threshold [of sample_env sample_alert sample_txn]
      scoreMatch_matched_iff_threshold [of sample_env sample_alert other_txn]
    by (simp add: sample_score other_score i1 num_ge_def)
qed







text \<open>
  C6. The tolerance boundary is inclusive. With an alert amount of 1000 and the tolerance
  0.02, a candidate amount of 1020 gives a ratio equal to the tolerance and passes the
  amount factor; a candidate amount of 1021 fails it.
\<close>

theorem amount_tolerance_boundary_inclusive:
  assumes "PartialBankAlert.amount alert = Fin 1000"
  shows "(Transaction.amount txn = Fin 1020 \<longrightarrow>
            amountDiffPercent alert txn = AMOUNT_TOLERANCE \<and> AMOUNT_TOLERANCE = Fin (2 / 100)
            \<and> amountMatches alert txn
            \<and> amountMatch (matchDetails (scoreMatch e alert txn)))
       \<and> (Transaction.amount txn = Fin 1021 \<longrightarrow>
            \<not> amountMatches alert txn
            \<and> \<not> amountMatch (matchDetails (scoreMatch e alert txn)))"
  using assms
  by (simp add: scoreMatch_def Let_def amountMatches_def amountDiffPercent_def amountDiff_def
      AMOUNT_TOLERANCE_def num_gt_def num_sub_def)

theorem amount_tolerance_boundary_inclusive_witness:
  "PartialBankAlert.amount alert_1000 = Fin 1000
   \<and> Transaction.amount txn_1020 = Fin 1020
   \<and> amountMatch (matchDetails (scoreMatch sample_env alert_1000 txn_1020))
   \<and> Transaction.amount txn_1021 = Fin 1021
   \<and> \<not> amountMatch (matchDetails (scoreMatch sample_env alert_1000 txn_1021))"
proof -
  have a: "PartialBankAlert.amount alert_1000 = Fin 1000"
    by (simp add: alert_1000_def)
  have t0: "Transaction.amount txn_1020 = Fin 1020"
    by (simp add: txn_1020_def)
  have t1: "Transaction.amount txn_1021 = Fin 1021"
    by (simp add: txn_1021_def)
  show ?thesis
    using amount_tolerance_boundary_inclusive [OF a, of txn_1020 sample_env]
      amount_tolerance_boundary_inclusive [OF a, of txn_1021 sample_env] a t0 t1
    by simp
qed

text \<open>
  C7. Similarity of a string with itself is 1; similarity of the empty string with
  \<open>nonempty\<close> (and with any string that is not empty after normalisation) is 0;
  similarity of \<open>abc\<close> and \<open>abd\<close> lies strictly between 0 and 1. For normalised strings
  that differ and are both non-empty the value is (max_len - distance) / max_len, where
  the distance is the edit distance of the lowercased, trimmed strings.
\<close>

theorem similarity_properties:
  "(\<forall>s. calculateSimilarity s s = Fin 1)
   \<and> calculateSimilarity (str []) (str ''nonempty'') = Fin 0
   \<and> (\<forall>t. trim (toLowerCase t) \<noteq> [] \<longrightarrow> calculateSimilarity [] t = Fin 0)
   \<and> (\<exists>q. calculateSimilarity (str ''abc'') (str ''abd'') = Fin q \<and> 0 < q \<and> q < 1)
   \<and> (\<forall>s t. trim (toLowerCase s) \<noteq> trim (toLowerCase t)
          \<and> trim (toLowerCase s) \<noteq> [] \<and> trim (toLowerCase t) \<noteq> [] \<longrightarrow>
        calculateSimilarity s t =
          Fin ((of_nat (max (length (trim (toLowerCase s))) (length (trim (toLowerCase t))))
                - of_nat (lev_dp (trim (toLowerCase s)) (trim (toLowerCase t))
                            (length (trim (toLowerCase s))) (length (trim (toLowerCase t)))))
               / of_nat (max (length (trim (toLowerCase s))) (length (trim (toLowerCase t))))))"
proof (intro conjI allI impI)
  show "calculateSimilarity s s = Fin 1" for s
    by (simp add: calculateSimilarity_def)
  show "calculateSimilarity (str []) (str ''nonempty'') = Fin 0"
    by (simp add: calculateSimilarity_def str_def trim_def toLowerCase_def lower_unit_def is_space_def)
  show "calculateSimilarity [] t = Fin 0" if "trim (toLowerCase t) \<noteq> []" for t
  proof -
    have "trim (toLowerCase []) = []"
      by (simp add: trim_def toLowerCase_def)
    then show ?thesis
      using that by (simp add: calculateSimilarity_def Let_def)
  qed
  show "\<exists>q. calculateSimilarity (str ''abc'') (str ''abd'') = Fin q \<and> 0 < q \<and> q < 1"
    unfolding similarity_abc_abd by (intro exI [of _ "2 / 3"]) simp
  show "calculateSimilarity s t =
          Fin ((of_nat (max (length (trim (toLowerCase s))) (length (trim (toLowerCase t))))
                - of_nat (lev_dp (trim (toLowerCase s)) (trim (toLowerCase t))
                            (length (trim (toLowerCase s))) (length (trim (toLowerCase t)))))
               / of_nat (max (length (trim (toLowerCase s))) (length (trim (toLowerCase t)))))"
    if "trim (toLowerCase s) \<noteq> trim (toLowerCase t)
          \<and> trim (toLowerCase s) \<noteq> [] \<and> trim (toLowerCase t) \<noteq> []" for s t
    using that by (intro similarity_formula) simp_all
qed

theorem similarity_properties_witness:
  "trim (toLowerCase (str '' Kitten'')) = str ''kitten''
   \<and> trim (toLowerCase (str ''SITTING '')) = str ''sitting''
   \<and> lev_dp (str ''kitten'') (str ''sitting'') 6 7 = 3
   \<and> calculateSimilarity (str '' Kitten'') (str ''SITTING '') = Fin (4 / 7)
   \<and> calculateSimilarity [] (str ''x'') = Fin 0"
proof -
  have a: "trim (toLowerCase (str '' Kitten'')) = str ''kitten''"
    by (simp add: str_def trim_def toLowerCase_def lower_unit_def is_space_def)
  have b: "trim (toLowerCase (str ''SITTING '')) = str ''sitting''"
    by (simp add: str_def trim_def toLowerCase_def lower_unit_def is_space_def)
  have c: "trim (toLowerCase (str ''x'')) = str ''x''"
    by (simp add: str_def trim_def toLowerCase_def lower_unit_def is_space_def)
  have n: "str ''kitten'' \<noteq> str ''sitting''" "str ''kitten'' \<noteq> []" "str ''sitting'' \<noteq> []"
    "str ''x'' \<noteq> []" "length (str ''kitten'') = 6" "length (str ''sitting'') = 7"
    by (simp_all add: str_def)
  have "levenshteinDistance (str ''kitten'') (str ''sitting'') = 3"
    by (simp add: str_def levenshteinDistance_def lev_outer_def lev_inner_def array_set_def charAt_def)
  then have d: "lev_dp (str ''kitten'') (str ''sitting'') 6 7 = 3"
    using levenshteinDistance_dp [of "str ''kitten''" "str ''sitting''"]
    by (simp add: n del: lev_dp.simps)
  show ?thesis
    using similarity_properties a b c n d
    by (simp del: lev_dp.simps)
qed

text \<open>
  C8, as the code has it. For every text and every format name that is not the name of a
  property inherited from \<open>Object.prototype\<close>, \<open>parseEmail\<close> returns an alert; when the name
  is not a key of the table (compared exactly, so also by case), the alert is the one
  parsed under \<open>gtbank\<close> with the same clock, except that its \<open>bank\<close> field holds the name
  as it was passed.
\<close>

theorem parseEmail_unknown_format_falls_back:
  assumes "bank' \<notin> set object_prototype_keys"
  shows "(\<exists>a. parseEmail BANK_PATTERNS e email bank' = Inr a)
    \<and> (bank' \<notin> fst ` set BANK_PATTERNS \<longrightarrow>
         (\<exists>a. parseEmail BANK_PATTERNS e email (str ''gtbank'') = Inr a
              \<and> parseEmail BANK_PATTERNS e email bank' = Inr (a \<lparr> bank := bank' \<rparr>)))"
proof -
  from lookup_not_inherited [OF assms] obtain p where
    p: "lookup_patterns BANK_PATTERNS bank' = Own p" "bank' \<notin> fst ` set BANK_PATTERNS \<longrightarrow> p = gtbank"
    by blast
  have b: "p = gtbank \<or> p = access \<or> p = firstbank"
    by (rule builtin_patterns [OF p(1)])
  from amount_of_total [OF b] obtain v where v: "amount_of (search (amountPattern p) email) = Inr v"
    by blast
  have r: "\<exists>a. parseEmail BANK_PATTERNS e email bank' = Inr a"
    using v by (simp add: parseEmail_Own [OF p(1)])
  have f: "\<exists>a. parseEmail BANK_PATTERNS e email (str ''gtbank'') = Inr a
              \<and> parseEmail BANK_PATTERNS e email bank' = Inr (a \<lparr> bank := bank' \<rparr>)"
    if "bank' \<notin> fst ` set BANK_PATTERNS"
  proof -
    from that p(2) have g: "p = gtbank" by simp
    show ?thesis
      using v by (simp add: parseEmail_Own [OF p(1)] parseEmail_Own [OF lookup_gtbank] g)
  qed
  from r f show ?thesis by blast
qed

theorem parseEmail_unknown_format_falls_back_witness:
  "str ''GTBank'' \<notin> set object_prototype_keys
   \<and> str ''GTBank'' \<notin> fst ` set BANK_PATTERNS
   \<and> parseEmail BANK_PATTERNS sample_env plain_email (str ''GTBank'')
     = Inr \<lparr> PartialBankAlert.timestamp = TsDate (Fin 1729002645000),
           PartialBankAlert.amount = Fin 50000,
           PartialBankAlert.currency = str ''NGN'',
           PartialBankAlert.accountNumber = str ''****1234'',
           PartialBankAlert.description = plain_email, transactionType = credit,
           rawEmail = plain_email, bank = str ''GTBank'' \<rparr>"
proof -
  have n: "str ''GTBank'' \<notin> set object_prototype_keys"
    by (simp add: object_prototype_keys_def str_def)
  have u: "str ''GTBank'' \<notin> fst ` set BANK_PATTERNS"
    by (simp add: BANK_PATTERNS_def str_def)
  show ?thesis
    using parseEmail_unknown_format_falls_back [OF n, of sample_env plain_email] n u
    by (auto simp add: plain_email_parse)
qed

theorem parseEmail_unknown_format_counterexample:
  "parseEmail BANK_PATTERNS sample_env plain_email (str ''constructor'') = Inl TypeError
   \<and> bank (projr (parseEmail BANK_PATTERNS sample_env plain_email (str ''GTBank''))) = str ''GTBank''
   \<and> bank (projr (parseEmail BANK_PATTERNS sample_env plain_email (str ''gtbank''))) = str ''gtbank''
   \<and> parseEmail BANK_PATTERNS sample_env plain_email (str ''GTBank'')
      \<noteq> parseEmail BANK_PATTERNS sample_env plain_email (str ''gtbank'')"
proof -
  have i: "lookup_patterns BANK_PATTERNS (str ''constructor'') = Inherited"
    by (simp add: lookup_patterns_def BANK_PATTERNS_def object_prototype_keys_def str_def)
  have u: "parseEmail BANK_PATTERNS sample_env plain_email (str ''GTBank'')
     = Inr \<lparr> PartialBankAlert.timestamp = TsDate (Fin 1729002645000),
           PartialBankAlert.amount = Fin 50000,
           PartialBankAlert.currency = str ''NGN'',
           PartialBankAlert.accountNumber = str ''****1234'',
           PartialBankAlert.description = plain_email, transactionType = credit,
           rawEmail = plain_email, bank = str ''GTBank'' \<rparr>"
    by (simp add: plain_email_def parse_eval regex_eval float_eval sample_env_def Let_def)
  have d: "str ''GTBank'' \<noteq> str ''gtbank''"
    by (simp add: str_def)
  show ?thesis
    using d by (simp add: parseEmail_Inherited [OF i] u plain_email_parse)
qed

text \<open>
  C9. The direction of the alert is \<open>debit\<close> exactly when the leftmost match of the
  profile's type pattern is a keyword that contains \<open>debit\<close> or \<open>withdrawal\<close> once
  lowercased; otherwise, and when no keyword is found, it is \<open>credit\<close>. The keyword found
  is always one of the five keywords up to case.
\<close>

theorem parseEmail_direction:
  assumes "lookup_patterns BANK_PATTERNS bank' = Own p"
  shows "\<exists>a. parseEmail BANK_PATTERNS e email bank' = Inr a
    \<and> (transactionType a = debit \<longleftrightarrow>
         (\<exists>m kw. search (typePattern p) email = Some m \<and> group1 m = Some kw
            \<and> (str_includes (toLowerCase kw) (str ''debit'')
                \<or> str_includes (toLowerCase kw) (str ''withdrawal''))))
    \<and> (transactionType a \<noteq> debit \<longrightarrow> transactionType a = credit)
    \<and> (search (typePattern p) email = None \<longrightarrow> transactionType a = credit)
    \<and> (\<forall>m. search (typePattern p) email = Some m \<longrightarrow>
         (\<exists>kw. group1 m = Some kw \<and> toLowerCase kw \<in> set type_keywords
            \<and> (transactionType a = debit \<longleftrightarrow>
                 toLowerCase kw = str ''debit'' \<or> toLowerCase kw = str ''withdrawal'')))"
proof -
  have p: "p = gtbank \<or> p = access \<or> p = firstbank"
    by (rule builtin_patterns [OF assms])
  from amount_of_total [OF p] obtain v where v: "amount_of (search (amountPattern p) email) = Inr v"
    by blast
  let ?t = "transactionType_of (search (typePattern p) email)"
  let ?a = "\<lparr> PartialBankAlert.timestamp = timestamp_of e (search (timePattern p) email),
               PartialBankAlert.amount = v,
               PartialBankAlert.currency = str ''NGN'',
               PartialBankAlert.accountNumber = accountNumber_of (search (accountPattern p) email),
               PartialBankAlert.description = substring email 0 200,
               transactionType = ?t,
               rawEmail = email,
               bank = bank' \<rparr>"
  have r: "parseEmail BANK_PATTERNS e email bank' = Inr ?a"
    using v by (simp add: parseEmail_Own [OF assms])
  have iff: "?t = debit \<longleftrightarrow>
         (\<exists>m kw. search (typePattern p) email = Some m \<and> group1 m = Some kw
            \<and> (str_includes (toLowerCase kw) (str ''debit'')
                \<or> str_includes (toLowerCase kw) (str ''withdrawal'')))"
    by (auto simp add: transactionType_of_def split: option.splits)
  have cr: "?t \<noteq> debit \<longrightarrow> ?t = credit"
    by (cases ?t) simp_all
  have none: "search (typePattern p) email = None \<longrightarrow> ?t = credit"
    by (simp add: transactionType_of_def)
  have some: "\<exists>kw. group1 m = Some kw \<and> toLowerCase kw \<in> set type_keywords
            \<and> (?t = debit \<longleftrightarrow> toLowerCase kw = str ''debit'' \<or> toLowerCase kw = str ''withdrawal'')"
    if m: "search (typePattern p) email = Some m" for m
  proof -
    from typePattern_groups [OF p] search_group [OF m] obtain kw where
      kw: "group1 m = Some kw" "toLowerCase kw \<in> set type_keywords"
      by blast
    have "(str_includes (toLowerCase kw) (str ''debit'') \<or> str_includes (toLowerCase kw) (str ''withdrawal''))
          = (toLowerCase kw = str ''debit'' \<or> toLowerCase kw = str ''withdrawal'')"
      using kw(2) by (auto simp add: type_keywords_def str_def)
    then show ?thesis
      using kw m by (simp add: transactionType_of_def)
  qed
  show ?thesis
    using r iff cr none some by (intro exI [of _ ?a]) simp
qed

theorem parseEmail_direction_witness:
  "lookup_patterns BANK_PATTERNS (str ''gtbank'') = Own gtbank
   \<and> group1 (the (search (typePattern gtbank) no_fields_email)) = Some (str ''debit'')
   \<and> transactionType (projr (parseEmail BANK_PATTERNS sample_env no_fields_email (str ''gtbank''))) = debit
   \<and> lookup_patterns BANK_PATTERNS (str ''access'') = Own access
   \<and> group1 (the (search (typePattern access) access_email)) = Some (str ''Credit'')
   \<and> transactionType (projr (parseEmail BANK_PATTERNS sample_env access_email (str ''access''))) = credit
   \<and> search (typePattern gtbank) empty_token_email = None
   \<and> transactionType (projr (parseEmail BANK_PATTERNS sample_env empty_token_email (str ''gtbank''))) = credit"
proof -
  have s1: "search (typePattern gtbank) no_fields_email
            = Some \<lparr> matched_text = str ''debit'', group1 = Some (str ''debit'') \<rparr>"
    by (simp add: no_fields_email_def gtbank_def regex_eval)
  have s2: "search (typePattern access) access_email
            = Some \<lparr> matched_text = str ''Credit'', group1 = Some (str ''Credit'') \<rparr>"
    by (simp add: access_email_def access_def regex_eval)
  have s3: "search (typePattern gtbank) empty_token_email = None"
    by (simp add: empty_token_email_def gtbank_def regex_eval)
  have l: "toLowerCase (str ''debit'') = str ''debit''" "toLowerCase (str ''Credit'') = str ''credit''"
    "str ''credit'' \<noteq> str ''debit''" "str ''credit'' \<noteq> str ''withdrawal''"
    by (simp_all add: toLowerCase_def lower_unit_def str_def)
  from parseEmail_direction [OF lookup_gtbank, of sample_env no_fields_email]
  have a: "transactionType (projr (parseEmail BANK_PATTERNS sample_env no_fields_email (str ''gtbank''))) = debit"
    by (auto simp add: s1 l)
  from parseEmail_direction [OF lookup_access, of sample_env access_email]
  have b: "transactionType (projr (parseEmail BANK_PATTERNS sample_env access_email (str ''access''))) = credit"
    by (auto simp add: s2 l)
  from parseEmail_direction [OF lookup_gtbank, of sample_env empty_token_email]
  have c: "transactionType (projr (parseEmail BANK_PATTERNS sample_env empty_token_email (str ''gtbank''))) = credit"
    by (auto simp add: s3)
  show ?thesis
    using a b c by (simp add: lookup_gtbank lookup_access s1 s2 s3)
qed

text \<open>
  C10. The account factor is plain string equality with no check for emptiness: when the
  alert's account number and the candidate's are both the empty string, the account
  factor passes and the weight 0.3 is part of the confidence.
\<close>

theorem empty_account_numbers_match:
  assumes "PartialBankAlert.accountNumber alert = []" and "Transaction.accountNumber txn = []"
  shows "accountMatches alert txn
    \<and> confidence (scoreMatch e alert txn) =
        num_add (num_add (num_add (if amountMatches alert txn then Fin (4 / 10) else Fin 0)
                   (Fin (3 / 10)))
                   (if isWithinTimeWindow e alert txn then Fin (2 / 10) else Fin 0))
                (num_mul (calculateSimilarity (PartialBankAlert.description alert) (Transaction.description txn))
                         (Fin (1 / 10)))
    \<and> num_ge (confidence (scoreMatch e alert txn)) (Fin (3 / 10))"
proof -
  have m: "accountMatches alert txn"
    using assms by (simp add: accountMatches_def)
  obtain qs where qs: "calculateSimilarity (PartialBankAlert.description alert) (Transaction.description txn) = Fin qs"
    "0 \<le> qs"
    using similarity_range by blast
  have c: "score e alert txn =
        num_add (num_add (num_add (if amountMatches alert txn then Fin (4 / 10) else Fin 0)
                   (Fin (3 / 10)))
                   (if isWithinTimeWindow e alert txn then Fin (2 / 10) else Fin 0))
                (num_mul (calculateSimilarity (PartialBankAlert.description alert) (Transaction.description txn))
                         (Fin (1 / 10)))"
    using m qs(1) by (simp add: score_def Let_def)
  have g: "num_ge (score e alert txn) (Fin (3 / 10))"
    using m qs by (simp add: score_decomp [OF qs(1)] num_ge_def)
  show ?thesis
    using m c g by simp
qed

theorem empty_account_numbers_match_witness:
  "PartialBankAlert.accountNumber parsed_alert = []
   \<and> Transaction.accountNumber blank_txn = []
   \<and> accountMatches parsed_alert blank_txn
   \<and> num_ge (confidence (scoreMatch sample_env parsed_alert blank_txn)) (Fin (3 / 10))"
proof -
  have a: "PartialBankAlert.accountNumber parsed_alert = []"
    by (simp add: parsed_alert_def with_id_def PartialBankAlert.extend_def no_fields_email_parse)
  have t: "Transaction.accountNumber blank_txn = []"
    by (simp add: blank_txn_def)
  show ?thesis
    using empty_account_numbers_match [OF a t, of sample_env] a t by blast
qed

end
